theory Spec2Isabelle
  imports Main "HOL-Library.Word" "HOL-Library.Sublist"
begin

unbundle bit_operations_syntax

section \<open>JavaScript values\<close>

text \<open>
  A JavaScript string is a sequence of UTF-16 code units, which is what \<open>charCodeAt\<close>,
  \<open>===\<close>, \<open>split\<close> and \<open>join\<close> work on. Numbers that the code uses as versions and
  epoch milliseconds are integers. \<open>lit\<close> embeds an ASCII literal of the source.
\<close>

type_synonym jsstring = "16 word list"

definition lit :: "string \<Rightarrow> jsstring" where
  "lit s = map of_char s"

definition newline :: "16 word" where
  "newline = 0x0A"

text \<open>\<open>s.split('\n')\<close>: the empty string gives one empty line.\<close>

fun split_on :: "'a \<Rightarrow> 'a list \<Rightarrow> 'a list list" where
  "split_on sep [] = [[]]"
| "split_on sep (c # cs) =
     (if c = sep then [] # split_on sep cs
      else (case split_on sep cs of
              [] \<Rightarrow> [[c]]
            | p # ps \<Rightarrow> (c # p) # ps))"

text \<open>\<open>xs.join(sep)\<close>: the empty array gives the empty string.\<close>

fun join_with :: "'a list \<Rightarrow> 'a list list \<Rightarrow> 'a list" where
  "join_with sep [] = []"
| "join_with sep [x] = x"
| "join_with sep (x # y # ys) = x @ sep @ join_with sep (y # ys)"

text \<open>\<open>s.includes(t)\<close>, which is what the tests' \<open>toContain\<close> checks on a string.\<close>

definition str_includes :: "jsstring \<Rightarrow> jsstring \<Rightarrow> bool" where
  "str_includes s t = sublist t s"

text \<open>Every \<open>throw new Error(...)\<close> of the modelled code, and the TypeError of a property
  read on \<open>null\<close>.\<close>

datatype error =
    TypeError
  | UnknownStrategy jsstring
  | ManualResolutionRequired
  | ContentRequired
  | AlreadyResolving
  | ConflictNotFound jsstring
  | InvalidNoteData
  | NotInitialized

section \<open>ConflictDetector.js: data\<close>

record versioned_content =
  content :: jsstring
  version :: int
  timestamp :: int
  deviceId :: jsstring
  hash :: jsstring

datatype conflict_type = concurrent_edit | offline_divergence

text \<open>\<open>localVersion\<close> and \<open>remoteVersion\<close> may be \<open>null\<close> (the resolver's test suite queues
  such a conflict); \<open>commonAncestor\<close> is optional.\<close>

record conflict_info =
  ctype :: conflict_type
  localVersion :: "versioned_content option"
  remoteVersion :: "versioned_content option"
  commonAncestor :: "versioned_content option"

record conflict_region =
  startLine :: nat
  endLine :: nat
  localContent :: jsstring
  remoteContent :: jsstring

text \<open>\<open>conflicts\<close> is absent on a successful merge.\<close>

record merge_result =
  success :: bool
  merged :: jsstring
  conflicts :: "conflict_region list option"

record detector =
  conflictWindow :: int

text \<open>\<open>this.conflictWindow = options.conflictWindow || 5000\<close>: an absent option and the
  falsy 0 both give 5000.\<close>

definition new_ConflictDetector :: "int option \<Rightarrow> detector" where
  "new_ConflictDetector w =
     \<lparr>conflictWindow = (case w of None \<Rightarrow> 5000 | Some x \<Rightarrow> if x = 0 then 5000 else x)\<rparr>"

section \<open>ConflictDetector.detectConflict\<close>

definition mk_conflict ::
  "conflict_type \<Rightarrow> versioned_content \<Rightarrow> versioned_content \<Rightarrow> conflict_info" where
  "mk_conflict t l r =
     \<lparr>ctype = t, localVersion = Some l, remoteVersion = Some r, commonAncestor = None\<rparr>"

definition detectConflict ::
  "detector \<Rightarrow> versioned_content \<Rightarrow> versioned_content \<Rightarrow> conflict_info option" where
  "detectConflict d l r =
     (if hash l = hash r \<or> content l = content r then None
      else if version l = version r then Some (mk_conflict concurrent_edit l r)
      else let timeDiff = \<bar>timestamp l - timestamp r\<bar> in
        if timeDiff < conflictWindow d then Some (mk_conflict concurrent_edit l r)
        else if version l < version r \<and> hash l \<noteq> hash r
             then Some (mk_conflict offline_divergence l r)
        else None)"

subsection \<open>The decision list in the specification's words\<close>





section \<open>ConflictDetector.threeWayMerge\<close>

text \<open>\<open>lines[i] || ''\<close>: an index out of range reads \<open>undefined\<close>, which becomes the empty
  line (as an empty line itself does).\<close>

definition line_at :: "jsstring list \<Rightarrow> nat \<Rightarrow> jsstring" where
  "line_at ls i = (if i < length ls then ls ! i else [])"

text \<open>The inner loops of \<open>_mergeLines\<close>:
  \<open>while (idx < lines.length && lines[idx] !== baseLine) { acc.push(lines[idx]); idx++ }\<close>.\<close>

function collect ::
  "jsstring list \<Rightarrow> jsstring \<Rightarrow> nat \<Rightarrow> jsstring list \<Rightarrow> jsstring list \<times> nat" where
  "collect ls baseLine idx acc =
     (if idx < length ls \<and> ls ! idx \<noteq> baseLine
      then collect ls baseLine (Suc idx) (acc @ [ls ! idx])
      else (acc, idx))"
  by pat_completeness auto
termination
  by (relation "measure (\<lambda>(ls, b, idx, acc). length ls - idx)") auto

definition marker_local :: jsstring where
  "marker_local = lit ''<<<<<<< LOCAL''"

definition marker_sep :: jsstring where
  "marker_sep = lit ''=======''"

definition marker_remote :: jsstring where
  "marker_remote = lit ''>>>>>>> REMOTE''"

lemma collect_idx_ge: "idx \<le> snd (collect ls b idx acc)"
proof (induction ls b idx acc rule: collect.induct)
  case (1 ls baseLine idx acc)
  show ?case
  proof (cases "idx < length ls \<and> ls ! idx \<noteq> baseLine")
    case True
    with "1.IH" have "Suc idx \<le> snd (collect ls baseLine (Suc idx) (acc @ [ls ! idx]))"
      by simp
    with True show ?thesis
      by (subst collect.simps) simp
  next
    case False
    then show ?thesis
      by (subst collect.simps) auto
  qed
qed

lemma collect_idx_gt:
  assumes "idx < length ls" and "ls ! idx \<noteq> b"
  shows "idx < snd (collect ls b idx acc)"
proof -
  have "Suc idx \<le> snd (collect ls b (Suc idx) (acc @ [ls ! idx]))"
    by (rule collect_idx_ge)
  with assms show ?thesis
    by (subst collect.simps) simp
qed

text \<open>The main loop of \<open>_mergeLines\<close>, with its three indices and the two arrays it
  fills.\<close>

function mergeLines_loop ::
  "jsstring list \<Rightarrow> jsstring list \<Rightarrow> jsstring list \<Rightarrow> nat \<Rightarrow> nat \<Rightarrow> nat \<Rightarrow>
   jsstring list \<Rightarrow> conflict_region list \<Rightarrow> jsstring list \<times> conflict_region list" where
  "mergeLines_loop baseLines localLines remoteLines baseIdx localIdx remoteIdx out regs =
     (if baseIdx < length baseLines \<or> localIdx < length localLines
         \<or> remoteIdx < length remoteLines
      then
        if line_at baseLines baseIdx = line_at localLines localIdx
           \<and> line_at baseLines baseIdx = line_at remoteLines remoteIdx
        then mergeLines_loop baseLines localLines remoteLines
               (Suc baseIdx) (Suc localIdx) (Suc remoteIdx)
               (out @ [line_at baseLines baseIdx]) regs
        else if line_at baseLines baseIdx = line_at localLines localIdx
           \<and> line_at baseLines baseIdx \<noteq> line_at remoteLines remoteIdx
        then mergeLines_loop baseLines localLines remoteLines
               (Suc baseIdx) (Suc localIdx) (Suc remoteIdx)
               (out @ [line_at remoteLines remoteIdx]) regs
        else if line_at baseLines baseIdx = line_at remoteLines remoteIdx
           \<and> line_at baseLines baseIdx \<noteq> line_at localLines localIdx
        then mergeLines_loop baseLines localLines remoteLines
               (Suc baseIdx) (Suc localIdx) (Suc remoteIdx)
               (out @ [line_at localLines localIdx]) regs
        else
          mergeLines_loop baseLines localLines remoteLines
            (Suc baseIdx)
            (snd (collect localLines (line_at baseLines baseIdx) localIdx []))
            (snd (collect remoteLines (line_at baseLines baseIdx) remoteIdx []))
            (out @ [marker_local]
               @ fst (collect localLines (line_at baseLines baseIdx) localIdx [])
               @ [marker_sep]
               @ fst (collect remoteLines (line_at baseLines baseIdx) remoteIdx [])
               @ [marker_remote])
            (regs @
              [\<lparr>startLine = length out,
                endLine = length (out @ [marker_local]
                   @ fst (collect localLines (line_at baseLines baseIdx) localIdx [])
                   @ [marker_sep]
                   @ fst (collect remoteLines (line_at baseLines baseIdx) remoteIdx [])
                   @ [marker_remote]) - 1,
                localContent = join_with [newline]
                   (fst (collect localLines (line_at baseLines baseIdx) localIdx [])),
                remoteContent = join_with [newline]
                   (fst (collect remoteLines (line_at baseLines baseIdx) remoteIdx []))\<rparr>])
      else (out, regs))"
  by pat_completeness auto
termination
proof (relation "measure (\<lambda>(bs, ls, rs, bi, li, ri, out, regs).
          (length bs - bi) + (length ls - li) + (length rs - ri))", goal_cases)
  case 1
  show ?case by simp
next
  case (2 bs ls rs bi li ri out regs)
  then show ?case by (simp only: in_measure prod.case) arith
next
  case (3 bs ls rs bi li ri out regs)
  then show ?case by (simp only: in_measure prod.case) arith
next
  case (4 bs ls rs bi li ri out regs)
  then show ?case by (simp only: in_measure prod.case) arith
next
  case (5 bs ls rs bi li ri out regs)
  let ?b = "line_at bs bi"
  from 5 have nl: "?b \<noteq> line_at ls li" and nr: "?b \<noteq> line_at rs ri"
    by blast+
  have l1: "li \<le> snd (collect ls ?b li [])" and r1: "ri \<le> snd (collect rs ?b ri [])"
    by (rule collect_idx_ge)+
  have l2: "li < snd (collect ls ?b li [])" if "li < length ls"
  proof (rule collect_idx_gt [OF that])
    from nl that show "ls ! li \<noteq> ?b" by (simp add: line_at_def)
  qed
  have r2: "ri < snd (collect rs ?b ri [])" if "ri < length rs"
  proof (rule collect_idx_gt [OF that])
    from nr that show "rs ! ri \<noteq> ?b" by (simp add: line_at_def)
  qed
  from 5(1) l1 r1 l2 r2 show ?case
    by (simp only: in_measure prod.case) arith
qed

declare collect.simps [simp del] mergeLines_loop.simps [simp del]

text \<open>\<open>_mergeLines\<close> starts the scan at index 0 with both arrays empty and returns
  \<open>{lines, conflicts}\<close>.\<close>

definition mergeLines ::
  "jsstring list \<Rightarrow> jsstring list \<Rightarrow> jsstring list \<Rightarrow> jsstring list \<times> conflict_region list"
  where
  "mergeLines baseLines localLines remoteLines =
     mergeLines_loop baseLines localLines remoteLines 0 0 0 [] []"

definition threeWayMerge :: "jsstring \<Rightarrow> jsstring \<Rightarrow> jsstring \<Rightarrow> merge_result" where
  "threeWayMerge base local remote =
     (if local = remote then \<lparr>success = True, merged = local, conflicts = None\<rparr>
      else if base = local then \<lparr>success = True, merged = remote, conflicts = None\<rparr>
      else if base = remote then \<lparr>success = True, merged = local, conflicts = None\<rparr>
      else
        let result = mergeLines (split_on newline base) (split_on newline local)
                       (split_on newline remote)
        in if length (snd result) = 0
           then \<lparr>success = True, merged = join_with [newline] (fst result), conflicts = None\<rparr>
           else \<lparr>success = False, merged = join_with [newline] (fst result),
                  conflicts = Some (snd result)\<rparr>)"

text \<open>The invariant of the scan: once a region is recorded, both markers are among the
  lines written.\<close>

definition marked :: "jsstring list \<Rightarrow> conflict_region list \<Rightarrow> bool" where
  "marked out regs = (regs = [] \<or> (marker_local \<in> set out \<and> marker_remote \<in> set out))"

section \<open>ConflictDetector.autoResolve\<close>

text \<open>The template of \<open>_mergeBoth\<close>: local, blank line, the marker line, blank line,
  remote.\<close>

definition merge_separator :: jsstring where
  "merge_separator =
     [newline, newline] @ lit ''--- MERGED FROM REMOTE ---'' @ [newline, newline]"

definition mergeBoth :: "jsstring \<Rightarrow> jsstring \<Rightarrow> jsstring" where
  "mergeBoth local remote = local @ merge_separator @ remote"

text \<open>Reading \<open>conflict.localVersion.x\<close> when \<open>localVersion\<close> is \<open>null\<close> throws a
  TypeError; each strategy reads only the sides it names, local before remote.\<close>

definition autoResolve :: "conflict_info \<Rightarrow> jsstring \<Rightarrow> error + jsstring" where
  "autoResolve conflict strategy =
     (if strategy = lit ''last-write-wins'' then
        (case localVersion conflict of None \<Rightarrow> Inl TypeError
         | Some l \<Rightarrow> (case remoteVersion conflict of None \<Rightarrow> Inl TypeError
            | Some r \<Rightarrow> Inr (if timestamp l > timestamp r then content l else content r)))
      else if strategy = lit ''first-write-wins'' then
        (case localVersion conflict of None \<Rightarrow> Inl TypeError
         | Some l \<Rightarrow> (case remoteVersion conflict of None \<Rightarrow> Inl TypeError
            | Some r \<Rightarrow> Inr (if timestamp l < timestamp r then content l else content r)))
      else if strategy = lit ''local-wins'' then
        (case localVersion conflict of None \<Rightarrow> Inl TypeError
         | Some l \<Rightarrow> Inr (content l))
      else if strategy = lit ''remote-wins'' then
        (case remoteVersion conflict of None \<Rightarrow> Inl TypeError
         | Some r \<Rightarrow> Inr (content r))
      else if strategy = lit ''merge-both'' then
        (case localVersion conflict of None \<Rightarrow> Inl TypeError
         | Some l \<Rightarrow> (case remoteVersion conflict of None \<Rightarrow> Inl TypeError
            | Some r \<Rightarrow> Inr (mergeBoth (content l) (content r))))
      else Inl (UnknownStrategy strategy))"

text \<open>\<open>autoResolve(conflict)\<close> without a strategy uses \<open>last-write-wins\<close>.\<close>

definition autoResolve_default :: "conflict_info \<Rightarrow> error + jsstring" where
  "autoResolve_default conflict = autoResolve conflict (lit ''last-write-wins'')"

section \<open>Number.prototype.toString and ConflictDetector.hashContent\<close>

text \<open>Digits \<open>0\<close>..\<open>9\<close> then \<open>a\<close>..\<open>z\<close>.\<close>

definition digit_char :: "nat \<Rightarrow> 16 word" where
  "digit_char d = (if d < 10 then of_nat (48 + d) else of_nat (87 + d))"

function to_radix :: "nat \<Rightarrow> nat \<Rightarrow> jsstring" where
  "to_radix b n =
     (if b < 2 \<or> n < b then [digit_char n]
      else to_radix b (n div b) @ [digit_char (n mod b)])"
  by pat_completeness auto
termination
  by (relation "measure (\<lambda>(b, n). n)") auto

declare to_radix.simps [simp del]

text \<open>\<open>n.toString(radix)\<close> for an integer \<open>n\<close>: a minus sign, then the digits of the
  absolute value. The code calls it with radix 36 and, in a template string, with the
  default radix 10.\<close>

definition number_toString :: "nat \<Rightarrow> int \<Rightarrow> jsstring" where
  "number_toString radix i =
     (if i < 0 then lit ''-'' @ to_radix radix (nat (- i)) else to_radix radix (nat i))"

text \<open>One round of the loop of \<open>hashContent\<close>. \<open>hash << 5\<close> and \<open>hash & hash\<close> work on
  32-bit integers and the sum in between is exact, so the round is 32-bit arithmetic.\<close>

definition hash_step :: "32 word \<Rightarrow> 16 word \<Rightarrow> 32 word" where
  "hash_step h c = (push_bit 5 h - h) + ucast c"

definition hashContent :: "jsstring \<Rightarrow> jsstring" where
  "hashContent s = number_toString 36 (sint (foldl hash_step 0 s))"

section \<open>The environment: clock, random source, hooks\<close>

text \<open>
  \<open>Date.now()\<close> and \<open>Math.random().toString(36)\<close> are inputs from the environment:
  the \<open>n\<close>-th call returns \<open>clock n\<close>, respectively \<open>random36 n\<close>, and nothing is
  assumed about either. The hooks \<open>onConflictDetected\<close> and \<open>onConflictResolved\<close> are
  callbacks of the application; a call is recorded in \<open>fired\<close> with its arguments and
  returns normally. Console output is not modelled.
\<close>

datatype hook_call =
    ConflictDetected conflict_info
  | ConflictResolved "conflict_info option" jsstring

record world =
  clock :: "nat \<Rightarrow> int"
  ticks :: nat
  random36 :: "nat \<Rightarrow> jsstring"
  draws :: nat
  fired :: "hook_call list"

definition Date_now :: "world \<Rightarrow> int \<times> world" where
  "Date_now w = (clock w (ticks w), w\<lparr>ticks := Suc (ticks w)\<rparr>)"

definition Math_random_toString36 :: "world \<Rightarrow> jsstring \<times> world" where
  "Math_random_toString36 w = (random36 w (draws w), w\<lparr>draws := Suc (draws w)\<rparr>)"

text \<open>\<open>s.substr(start, len)\<close> for non-negative arguments.\<close>

definition substr :: "nat \<Rightarrow> nat \<Rightarrow> jsstring \<Rightarrow> jsstring" where
  "substr start len s = take len (drop start s)"

definition fire :: "hook_call \<Rightarrow> world \<Rightarrow> world" where
  "fire c w = w\<lparr>fired := fired w @ [c]\<rparr>"

section \<open>ConflictResolver\<close>

record queued_conflict =
  item_conflict :: conflict_info
  item_timestamp :: int
  item_id :: jsstring

record resolver =
  r_detector :: detector
  defaultStrategy :: jsstring
  conflictQueue :: "queued_conflict list"
  resolving :: bool

text \<open>The options object, with every option optional.\<close>

record options =
  opt_conflictWindow :: "int option"
  opt_defaultStrategy :: "jsstring option"
  opt_onConflictDetected :: bool
  opt_onConflictResolved :: bool
  opt_autoResolveStrategy :: "jsstring option"

text \<open>\<open>x || d\<close> on an optional string: absent and empty are both falsy.\<close>

definition str_or :: "jsstring option \<Rightarrow> jsstring \<Rightarrow> jsstring" where
  "str_or x d = (case x of None \<Rightarrow> d | Some s \<Rightarrow> if s = [] then d else s)"

text \<open>\<open>x || d\<close> on an optional number: absent and 0 are both falsy.\<close>

definition num_or :: "int option \<Rightarrow> int \<Rightarrow> int" where
  "num_or x d = (case x of None \<Rightarrow> d | Some n \<Rightarrow> if n = 0 then d else n)"

definition new_ConflictResolver :: "options \<Rightarrow> resolver" where
  "new_ConflictResolver opts =
     \<lparr>r_detector = new_ConflictDetector (opt_conflictWindow opts),
      defaultStrategy = str_or (opt_defaultStrategy opts) (lit ''manual''),
      conflictQueue = [],
      resolving = False\<rparr>"

text \<open>\<open>resolve(conflict, strategy)\<close>. The argument list of \<open>threeWayMerge\<close> reads the
  ancestor's, the local and the remote content in this order.\<close>

definition resolve :: "resolver \<Rightarrow> conflict_info \<Rightarrow> jsstring \<Rightarrow> error + jsstring" where
  "resolve rs conflict strategy =
     (if strategy = lit ''manual'' then Inl ManualResolutionRequired
      else if strategy = lit ''auto-merge'' then
        (case commonAncestor conflict of
           Some a \<Rightarrow>
             (case localVersion conflict of None \<Rightarrow> Inl TypeError
              | Some l \<Rightarrow> (case remoteVersion conflict of None \<Rightarrow> Inl TypeError
                 | Some r \<Rightarrow>
                     let result = threeWayMerge (content a) (content l) (content r)
                     in if success result then Inr (merged result)
                        else autoResolve conflict (lit ''last-write-wins'')))
         | None \<Rightarrow> autoResolve conflict (lit ''last-write-wins''))
      else autoResolve conflict strategy)"

text \<open>\<open>resolve(conflict)\<close> without a strategy uses \<open>this.defaultStrategy\<close>.\<close>

definition resolve_default :: "resolver \<Rightarrow> conflict_info \<Rightarrow> error + jsstring" where
  "resolve_default rs conflict = resolve rs conflict (defaultStrategy rs)"

text \<open>The resolver's \<open>resolveManually(conflict, resolvedContent)\<close>: \<open>!resolvedContent\<close>
  holds for an absent and for an empty content.\<close>

definition resolver_resolveManually ::
  "conflict_info \<Rightarrow> jsstring option \<Rightarrow> error + jsstring" where
  "resolver_resolveManually conflict resolvedContent =
     (case resolvedContent of
        None \<Rightarrow> Inl ContentRequired
      | Some s \<Rightarrow> if s = [] then Inl ContentRequired else Inr s)"

text \<open>The id of a queued item:
  \<open>`conflict_${Date.now()}_${Math.random().toString(36).substr(2, 9)}`\<close>.\<close>

definition conflict_id :: "int \<Rightarrow> jsstring \<Rightarrow> jsstring" where
  "conflict_id now rnd =
     lit ''conflict_'' @ number_toString 10 now @ lit ''_'' @ substr 2 9 rnd"

text \<open>\<open>enqueueConflict\<close> reads the clock for \<open>timestamp\<close>, reads it again for the id,
  then draws the random number.\<close>

definition enqueueConflict :: "conflict_info \<Rightarrow> resolver \<times> world \<Rightarrow> resolver \<times> world" where
  "enqueueConflict conflict st =
     (let rs = fst st;
          t1 = Date_now (snd st);
          t2 = Date_now (snd t1);
          rnd = Math_random_toString36 (snd t2);
          item = \<lparr>item_conflict = conflict, item_timestamp = fst t1,
                  item_id = conflict_id (fst t2) (fst rnd)\<rparr>
      in (rs\<lparr>conflictQueue := conflictQueue rs @ [item]\<rparr>, snd rnd))"

definition getNextConflict :: "resolver \<Rightarrow> queued_conflict option" where
  "getNextConflict rs = (if length (conflictQueue rs) > 0 then Some (hd (conflictQueue rs)) else None)"

definition removeConflict :: "jsstring \<Rightarrow> resolver \<Rightarrow> resolver" where
  "removeConflict conflictId rs =
     rs\<lparr>conflictQueue := filter (\<lambda>item. item_id item \<noteq> conflictId) (conflictQueue rs)\<rparr>"

definition getQueueSize :: "resolver \<Rightarrow> nat" where
  "getQueueSize rs = length (conflictQueue rs)"

definition clearQueue :: "resolver \<Rightarrow> resolver" where
  "clearQueue rs = rs\<lparr>conflictQueue := []\<rparr>"

text \<open>The \<open>while\<close> loop of \<open>resolveAll\<close>: the head of the queue is resolved; on success
  its result is pushed and \<open>removeConflict(item.id)\<close> runs, on failure the head is
  shifted off.\<close>

function resolveAll_loop ::
  "jsstring \<Rightarrow> resolver \<Rightarrow> (jsstring \<times> jsstring) list
     \<Rightarrow> resolver \<times> (jsstring \<times> jsstring) list" where
  "resolveAll_loop strategy rs results =
     (if length (conflictQueue rs) > 0 then
        (case resolve rs (item_conflict (hd (conflictQueue rs))) strategy of
           Inr resolved \<Rightarrow>
             resolveAll_loop strategy
               (removeConflict (item_id (hd (conflictQueue rs))) rs)
               (results @ [(item_id (hd (conflictQueue rs)), resolved)])
         | Inl e \<Rightarrow>
             resolveAll_loop strategy (rs\<lparr>conflictQueue := tl (conflictQueue rs)\<rparr>) results)
      else (rs, results))"
  by pat_completeness auto
termination
proof (relation "measure (\<lambda>(strategy, rs, results). length (conflictQueue rs))", goal_cases)
  case 1
  show ?case by simp
next
  case (2 strategy rs results e)
  then show ?case by (cases "conflictQueue rs") simp_all
next
  case (3 strategy rs results resolved)
  then obtain x xs where q: "conflictQueue rs = x # xs"
    by (cases "conflictQueue rs") auto
  with q show ?case by (simp add: removeConflict_def le_imp_less_Suc)
qed

declare resolveAll_loop.simps [simp del]

text \<open>\<open>resolveAll(strategy)\<close>: the busy flag is checked, set, and cleared in the
  \<open>finally\<close> block; each item's failure is caught inside the loop.\<close>

definition resolveAll ::
  "jsstring \<Rightarrow> resolver \<Rightarrow> (error + (jsstring \<times> jsstring) list) \<times> resolver" where
  "resolveAll strategy rs =
     (if resolving rs then (Inl AlreadyResolving, rs)
      else
        let fin = resolveAll_loop strategy (rs\<lparr>resolving := True\<rparr>) []
        in (Inr (snd fin), (fst fin)\<lparr>resolving := False\<rparr>))"

text \<open>\<open>resolveAll()\<close> without a strategy uses \<open>last-write-wins\<close>.\<close>

definition resolveAll_default ::
  "resolver \<Rightarrow> (error + (jsstring \<times> jsstring) list) \<times> resolver" where
  "resolveAll_default rs = resolveAll (lit ''last-write-wins'') rs"

text \<open>The result list in the specification's words: the \<open>{id, resolved}\<close> pairs of the
  items whose resolution succeeds, in queue order.\<close>

fun succeeded :: "jsstring \<Rightarrow> resolver \<Rightarrow> queued_conflict list \<Rightarrow> (jsstring \<times> jsstring) list" where
  "succeeded strategy rs [] = []"
| "succeeded strategy rs (item # items) =
     (case resolve rs (item_conflict item) strategy of
        Inr res \<Rightarrow> (item_id item, res) # succeeded strategy rs items
      | Inl e \<Rightarrow> succeeded strategy rs items)"

text \<open>A run of \<open>enqueueConflict\<close> calls, one per conflict, in order.\<close>

fun enqueueAll :: "conflict_info list \<Rightarrow> resolver \<times> world \<Rightarrow> resolver \<times> world" where
  "enqueueAll [] st = st"
| "enqueueAll (c # cs) st = enqueueAll cs (enqueueConflict c st)"

text \<open>What the \<open>i\<close>-th call of such a run puts into its id: the second of its two clock
  readings and the nine characters kept of its random draw.\<close>

definition id_key :: "world \<Rightarrow> nat \<Rightarrow> int \<times> jsstring" where
  "id_key w i = (clock w (ticks w + 2 * i + 1), substr 2 9 (random36 w (draws w + i)))"

text \<open>The id as a function of that pair.\<close>

definition key_id :: "int \<times> jsstring \<Rightarrow> jsstring" where
  "key_id k = lit ''conflict_'' @ number_toString 10 (fst k) @ lit ''_'' @ snd k"

text \<open>The number that a run of decimal digits denotes.\<close>

definition digit_value :: "jsstring \<Rightarrow> nat" where
  "digit_value ds = foldl (\<lambda>a c. 10 * a + (unat c - 48)) 0 ds"

section \<open>ConflictManager\<close>

text \<open>The hooks are present or \<open>null\<close>; \<open>autoResolveStrategy\<close> is a string or \<open>null\<close>.\<close>

record manager =
  m_detector :: detector
  m_resolver :: resolver
  onConflictDetected :: bool
  onConflictResolved :: bool
  autoResolveStrategy :: "jsstring option"

definition new_ConflictManager :: "options \<Rightarrow> manager" where
  "new_ConflictManager opts =
     \<lparr>m_detector = new_ConflictDetector (opt_conflictWindow opts),
      m_resolver = new_ConflictResolver opts,
      onConflictDetected = opt_onConflictDetected opts,
      onConflictResolved = opt_onConflictResolved opts,
      autoResolveStrategy =
        (case opt_autoResolveStrategy opts of
           None \<Rightarrow> None
         | Some s \<Rightarrow> if s = [] then None else Some s)\<rparr>"

definition setAutoResolveStrategy :: "jsstring option \<Rightarrow> manager \<Rightarrow> manager" where
  "setAutoResolveStrategy strategy m = m\<lparr>autoResolveStrategy := strategy\<rparr>"

text \<open>The raw data handed over by the sync layer: \<open>{content, version?, timestamp?,
  deviceId?}\<close>.\<close>

record sync_data =
  d_content :: jsstring
  d_version :: "int option"
  d_timestamp :: "int option"
  d_deviceId :: "jsstring option"

text \<open>The object literal that \<open>checkAndHandle\<close> builds for each side. \<open>Date.now()\<close> is
  called only when the timestamp is absent or 0.\<close>

definition versioned :: "jsstring \<Rightarrow> sync_data \<Rightarrow> world \<Rightarrow> versioned_content \<times> world" where
  "versioned dflt d w =
     (let ts = (case d_timestamp d of
                  None \<Rightarrow> Date_now w
                | Some t \<Rightarrow> if t = 0 then Date_now w else (t, w))
      in (\<lparr>content = d_content d,
           version = num_or (d_version d) 0,
           timestamp = fst ts,
           deviceId = str_or (d_deviceId d) dflt,
           hash = hashContent (d_content d)\<rparr>, snd ts))"

record check_result =
  hasConflict :: bool
  resolved :: "jsstring option"
  conflict :: "conflict_info option"

text \<open>\<open>this.autoResolveStrategy && this.autoResolveStrategy !== 'manual'\<close>.\<close>

definition auto_strategy :: "manager \<Rightarrow> jsstring option" where
  "auto_strategy m =
     (case autoResolveStrategy m of
        None \<Rightarrow> None
      | Some s \<Rightarrow> if s = [] \<or> s = lit ''manual'' then None else Some s)"

definition enqueue_and_report ::
  "conflict_info \<Rightarrow> manager \<Rightarrow> world \<Rightarrow> check_result \<times> manager \<times> world" where
  "enqueue_and_report c m w =
     (let st = enqueueConflict c (m_resolver m, w)
      in (\<lparr>hasConflict = True, resolved = None, conflict = Some c\<rparr>,
          m\<lparr>m_resolver := fst st\<rparr>, snd st))"

definition checkAndHandle ::
  "manager \<Rightarrow> sync_data \<Rightarrow> sync_data \<Rightarrow> world \<Rightarrow> check_result \<times> manager \<times> world" where
  "checkAndHandle m localData remoteData w =
     (let l = versioned (lit ''local'') localData w;
          r = versioned (lit ''remote'') remoteData (snd l)
      in case detectConflict (m_detector m) (fst l) (fst r) of
           None \<Rightarrow>
             (\<lparr>hasConflict = False, resolved = Some (content (fst r)), conflict = None\<rparr>,
              m, snd r)
         | Some c \<Rightarrow>
             let w1 = (if onConflictDetected m then fire (ConflictDetected c) (snd r)
                       else snd r)
             in case auto_strategy m of
                  None \<Rightarrow> enqueue_and_report c m w1
                | Some s \<Rightarrow>
                    (case resolve (m_resolver m) c s of
                       Inr res \<Rightarrow>
                         (\<lparr>hasConflict = True, resolved = Some res, conflict = Some c\<rparr>,
                          m,
                          if onConflictResolved m then fire (ConflictResolved (Some c) res) w1
                          else w1)
                     | Inl e \<Rightarrow> enqueue_and_report c m w1))"

text \<open>The two values that \<open>checkAndHandle\<close> builds from its arguments, local first, and
  what the detector says about them.\<close>

definition local_of :: "sync_data \<Rightarrow> world \<Rightarrow> versioned_content \<times> world" where
  "local_of localData w = versioned (lit ''local'') localData w"

definition remote_of :: "sync_data \<Rightarrow> sync_data \<Rightarrow> world \<Rightarrow> versioned_content \<times> world" where
  "remote_of localData remoteData w =
     versioned (lit ''remote'') remoteData (snd (local_of localData w))"

definition detected :: "manager \<Rightarrow> sync_data \<Rightarrow> sync_data \<Rightarrow> world \<Rightarrow> conflict_info option" where
  "detected m localData remoteData w =
     detectConflict (m_detector m) (fst (local_of localData w))
       (fst (remote_of localData remoteData w))"

text \<open>The manager's \<open>resolveManually(conflictId, resolvedContent)\<close>: \<open>find\<close> takes the
  first item with the id.\<close>

definition manager_resolveManually ::
  "manager \<Rightarrow> jsstring \<Rightarrow> jsstring option \<Rightarrow> world \<Rightarrow> (error + jsstring) \<times> manager \<times> world"
  where
  "manager_resolveManually m conflictId resolvedContent w =
     (case find (\<lambda>item. item_id item = conflictId) (conflictQueue (m_resolver m)) of
        None \<Rightarrow> (Inl (ConflictNotFound conflictId), m, w)
      | Some conflictItem \<Rightarrow>
          (case resolver_resolveManually (item_conflict conflictItem) resolvedContent of
             Inl e \<Rightarrow> (Inl e, m, w)
           | Inr res \<Rightarrow>
               (Inr res,
                m\<lparr>m_resolver := removeConflict conflictId (m_resolver m)\<rparr>,
                if onConflictResolved m
                then fire (ConflictResolved (Some (item_conflict conflictItem)) res) w
                else w)))"

section \<open>IndexedDBStorage.saveNote\<close>

text \<open>A note object; every field that the code tests with \<open>!\<close> or \<open>||\<close> may be absent.\<close>

record note_obj =
  note_id :: "jsstring option"
  note_notebookId :: "jsstring option"
  note_title :: jsstring
  note_content :: jsstring
  note_tags :: "jsstring list option"
  note_createdAt :: "int option"
  note_updatedAt :: "int option"
  note_version :: "int option"

text \<open>The \<open>notes\<close> object store, keyed by \<open>id\<close> (\<open>keyPath: 'id'\<close>): \<open>put\<close> inserts or
  replaces. \<open>db\<close> is \<open>null\<close> until \<open>initialize\<close> has succeeded.\<close>

record storage =
  isInitialized :: bool
  db :: "(jsstring \<rightharpoonup> note_obj) option"

definition truthy :: "jsstring option \<Rightarrow> bool" where
  "truthy x = (case x of None \<Rightarrow> False | Some s \<Rightarrow> s \<noteq> [])"

text \<open>\<open>saveNote(notebookId, note)\<close>: the guard, the clock, the object built by the spread
  and the overriding fields, then \<open>_transaction\<close> with its \<open>_ensureInitialized\<close> and
  \<open>store.put(noteData)\<close>, which the database engine is taken to accept.\<close>

text \<open>
  A JavaScript number is an IEEE 754 double. An integer is modelled by itself, and the
  sum of two integer-valued doubles is their exact sum rounded to the nearest double,
  a tie going to the even significand. \<open>excess_bits m\<close> is the number of low bits that
  a magnitude \<open>m\<close> has beyond the 53 bits of a significand. (A rounded magnitude of
  \<open>2 ^ 1024\<close> or more, which is \<open>Infinity\<close>, is out of the model's range; adding 1 to
  a double never gets there.)
\<close>

function excess_bits :: "nat \<Rightarrow> nat" where
  "excess_bits m = (if m < 2 ^ 53 then 0 else Suc (excess_bits (m div 2)))"
  by pat_completeness auto
termination
  by (relation "measure (\<lambda>m. m)") auto

declare excess_bits.simps [simp del]

definition round_nat :: "nat \<Rightarrow> nat" where
  "round_nat m =
     (let e = excess_bits m;
          q = m div 2 ^ e;
          r = m mod 2 ^ e
      in (if 2 * r > 2 ^ e \<or> (2 * r = 2 ^ e \<and> odd q) then q + 1 else q) * 2 ^ e)"

definition round_double :: "int \<Rightarrow> int" where
  "round_double i =
     (if i < 0 then - int (round_nat (nat (- i))) else int (round_nat (nat i)))"

text \<open>\<open>a + b\<close> on two integer-valued doubles.\<close>

definition js_add :: "int \<Rightarrow> int \<Rightarrow> int" where
  "js_add a b = round_double (a + b)"

definition noteData :: "jsstring option \<Rightarrow> note_obj \<Rightarrow> int \<Rightarrow> note_obj" where
  "noteData notebookId n now =
     n\<lparr>note_notebookId := notebookId,
       note_updatedAt := Some now,
       note_createdAt := Some (num_or (note_createdAt n) now),
       note_version := Some (js_add (num_or (note_version n) 0) 1),
       note_tags := Some (case note_tags n of None \<Rightarrow> [] | Some ts \<Rightarrow> ts)\<rparr>"

definition saveNote ::
  "jsstring option \<Rightarrow> note_obj \<Rightarrow> storage \<times> world \<Rightarrow> (error + unit) \<times> storage \<times> world" where
  "saveNote notebookId n st =
     (if \<not> truthy (note_id n) \<or> \<not> truthy notebookId
      then (Inl InvalidNoteData, st)
      else
        let t = Date_now (snd st);
            s = fst st
        in case db s of
             None \<Rightarrow> (Inl NotInitialized, s, snd t)
           | Some notes \<Rightarrow>
               if \<not> isInitialized s then (Inl NotInitialized, s, snd t)
               else (Inr (),
                     s\<lparr>db := Some (notes(the (note_id n) \<mapsto> noteData notebookId n (fst t)))\<rparr>,
                     snd t))"

text \<open>\<open>getNote(notebookId, noteId)\<close> on an initialised store: the note under the id, or
  \<open>null\<close> when it belongs to another notebook.\<close>

definition getNote :: "jsstring option \<Rightarrow> jsstring \<Rightarrow> storage \<Rightarrow> error + note_obj option" where
  "getNote notebookId noteId s =
     (case db s of
        None \<Rightarrow> Inl NotInitialized
      | Some notes \<Rightarrow>
          if \<not> isInitialized s then Inl NotInitialized
          else (case notes noteId of
                  None \<Rightarrow> Inr None
                | Some n \<Rightarrow> if note_notebookId n \<noteq> notebookId then Inr None else Inr (Some n)))"

section \<open>Concrete inputs\<close>



text \<open>The conflict of the strategy tests: local \<open>"A"\<close> at 1000, remote \<open>"B"\<close> at 2000.\<close>

definition ex_conflict_AB :: conflict_info where
  "ex_conflict_AB =
     \<lparr>ctype = concurrent_edit,
      localVersion = Some \<lparr>content = lit ''A'', version = 1, timestamp = 1000,
        deviceId = lit ''device-1'', hash = lit ''hash1''\<rparr>,
      remoteVersion = Some \<lparr>content = lit ''B'', version = 1, timestamp = 2000,
        deviceId = lit ''device-2'', hash = lit ''hash2''\<rparr>,
      commonAncestor = None\<rparr>"

text \<open>The two conflicts of the resolver's auto-merge tests and the options of its test
  suite. The tests give no hash; it is not read.\<close>

definition vc :: "string \<Rightarrow> int \<Rightarrow> int \<Rightarrow> string \<Rightarrow> versioned_content" where
  "vc text ver ts dev =
     \<lparr>content = lit text, version = ver, timestamp = ts, deviceId = lit dev, hash = []\<rparr>"

definition ex_conflict_mergeable :: conflict_info where
  "ex_conflict_mergeable =
     \<lparr>ctype = concurrent_edit,
      localVersion = Some (vc ''Hello'' 1 1000 ''device-1''),
      remoteVersion = Some (vc ''Hello World'' 1 2000 ''device-2''),
      commonAncestor = Some (vc ''Hello'' 0 500 ''device-1'')\<rparr>"

definition ex_conflict_unmergeable :: conflict_info where
  "ex_conflict_unmergeable =
     \<lparr>ctype = concurrent_edit,
      localVersion = Some (vc ''Local changes'' 1 1000 ''device-1''),
      remoteVersion = Some (vc ''Remote changes'' 1 2000 ''device-2''),
      commonAncestor = Some (vc ''Original'' 0 500 ''device-1'')\<rparr>"

definition ex_options :: options where
  "ex_options =
     \<lparr>opt_conflictWindow = None, opt_defaultStrategy = Some (lit ''last-write-wins''),
      opt_onConflictDetected = True, opt_onConflictResolved = True,
      opt_autoResolveStrategy = None\<rparr>"

text \<open>The malformed conflict of the resolver's batch test, a queue holding it before a
  well-formed one, and the queue that two calls of \<open>enqueueConflict\<close> build when the
  clock and the random source repeat their values.\<close>

definition ex_bad_conflict :: conflict_info where
  "ex_bad_conflict =
     \<lparr>ctype = concurrent_edit, localVersion = None, remoteVersion = None,
      commonAncestor = None\<rparr>"

definition ex_resolver :: resolver where
  "ex_resolver =
     (new_ConflictResolver ex_options)
       \<lparr>conflictQueue :=
          [\<lparr>item_conflict = ex_bad_conflict, item_timestamp = 1,
             item_id = lit ''conflict_1_a''\<rparr>,
           \<lparr>item_conflict = ex_conflict_AB, item_timestamp = 2,
             item_id = lit ''conflict_2_b''\<rparr>]\<rparr>"

definition ex_world_frozen :: world where
  "ex_world_frozen =
     \<lparr>clock = (\<lambda>n. 1000), ticks = 0, random36 = (\<lambda>n. lit ''0.abcdefghijk''), draws = 0,
      fired = []\<rparr>"

definition ex_two_enqueued :: "resolver \<times> world" where
  "ex_two_enqueued =
     enqueueConflict ex_conflict_unmergeable
       (enqueueConflict ex_conflict_AB (new_ConflictResolver ex_options, ex_world_frozen))"

text \<open>A manager over the queue above; two raw inputs of the sync layer and the versioned
  contents built from them (the hash of \<open>"A"\<close> is \<open>(65).toString(36)\<close>).\<close>

definition ex_manager :: manager where
  "ex_manager = (new_ConflictManager ex_options)\<lparr>m_resolver := ex_resolver\<rparr>"

definition ex_data_A :: sync_data where
  "ex_data_A = \<lparr>d_content = lit ''A'', d_version = Some 1, d_timestamp = Some 1000,
     d_deviceId = None\<rparr>"

definition ex_data_B :: sync_data where
  "ex_data_B = \<lparr>d_content = lit ''B'', d_version = Some 1, d_timestamp = Some 2000,
     d_deviceId = None\<rparr>"

definition ex_side_A :: versioned_content where
  "ex_side_A = \<lparr>content = lit ''A'', version = 1, timestamp = 1000, deviceId = lit ''local'',
     hash = lit ''1t''\<rparr>"

definition ex_side_B :: versioned_content where
  "ex_side_B = \<lparr>content = lit ''B'', version = 1, timestamp = 2000, deviceId = lit ''remote'',
     hash = lit ''1u''\<rparr>"

text \<open>A note at version 3 and an initialised, empty store.\<close>

definition ex_note :: note_obj where
  "ex_note =
     \<lparr>note_id = Some (lit ''note-1''), note_notebookId = None, note_title = lit ''Title'',
      note_content = lit ''Body'', note_tags = None, note_createdAt = None,
      note_updatedAt = None, note_version = Some 3\<rparr>"

definition ex_storage :: storage where
  "ex_storage = \<lparr>isInitialized = True, db = Some Map.empty\<rparr>"

section \<open>Properties\<close>

subsection \<open>Conflict detection\<close>



subsection \<open>Three-way merge\<close>

text \<open>
  C5. The fast paths of \<open>threeWayMerge\<close>, in their order: equal local and remote give
  the local text; otherwise an unchanged local gives the remote text; otherwise an
  unchanged remote gives the local text; each time the merge succeeds. So merging a text
  with itself twice gives the text, \<open>threeWayMerge(base, base, remote)\<close> gives \<open>remote\<close>
  and \<open>threeWayMerge(base, local, base)\<close> gives \<open>local\<close>.
\<close>

theorem threeWayMerge_fast_paths:
  "(local = remote \<longrightarrow>
      success (threeWayMerge base local remote)
      \<and> merged (threeWayMerge base local remote) = local)
   \<and> (local \<noteq> remote \<and> base = local \<longrightarrow>
      success (threeWayMerge base local remote)
      \<and> merged (threeWayMerge base local remote) = remote)
   \<and> (local \<noteq> remote \<and> base \<noteq> local \<and> base = remote \<longrightarrow>
      success (threeWayMerge base local remote)
      \<and> merged (threeWayMerge base local remote) = local)
   \<and> success (threeWayMerge x x x) \<and> merged (threeWayMerge x x x) = x
   \<and> success (threeWayMerge base base remote) \<and> merged (threeWayMerge base base remote) = remote
   \<and> success (threeWayMerge base local base) \<and> merged (threeWayMerge base local base) = local"
  by (simp add: threeWayMerge_def)

theorem threeWayMerge_fast_paths_witness:
  "merged (threeWayMerge (lit ''Hello'') (lit ''Hello World'') (lit ''Hello World''))
     = lit ''Hello World''
   \<and> merged (threeWayMerge (lit ''Hello'') (lit ''Hello'') (lit ''Hello World''))
     = lit ''Hello World''
   \<and> merged (threeWayMerge (lit ''Hello'') (lit ''Hello World'') (lit ''Hello''))
     = lit ''Hello World''"
  using threeWayMerge_fast_paths [of "lit ''Hello World''" "lit ''Hello World''" "lit ''Hello''"]
    threeWayMerge_fast_paths [of "lit ''Hello''" "lit ''Hello World''" "lit ''Hello''"]
    threeWayMerge_fast_paths [of "lit ''Hello World''" "lit ''Hello''" "lit ''Hello''"]
  by (simp add: lit_def)
lemma marked_push: "marked out regs \<Longrightarrow> marked (out @ [x]) regs"
  by (auto simp: marked_def)

lemma marked_hunk:
  "marked (out @ [marker_local] @ lc @ [marker_sep] @ rc @ [marker_remote]) (regs @ [reg])"
  by (simp add: marked_def)

lemma mergeLines_loop_marked:
  "marked out regs \<Longrightarrow>
   marked (fst (mergeLines_loop bs ls rs bi li ri out regs))
          (snd (mergeLines_loop bs ls rs bi li ri out regs))"
proof (induction bs ls rs bi li ri out regs rule: mergeLines_loop.induct)
  case (1 bs ls rs bi li ri out regs)
  let ?b = "line_at bs bi" and ?l = "line_at ls li" and ?r = "line_at rs ri"
  let ?more = "bi < length bs \<or> li < length ls \<or> ri < length rs"
  consider (stop) "\<not> ?more"
    | (same) "?more" "?b = ?l \<and> ?b = ?r"
    | (remote) "?more" "\<not> (?b = ?l \<and> ?b = ?r)" "?b = ?l \<and> ?b \<noteq> ?r"
    | (local) "?more" "\<not> (?b = ?l \<and> ?b = ?r)" "\<not> (?b = ?l \<and> ?b \<noteq> ?r)"
        "?b = ?r \<and> ?b \<noteq> ?l"
    | (hunk) "?more" "\<not> (?b = ?l \<and> ?b = ?r)" "\<not> (?b = ?l \<and> ?b \<noteq> ?r)"
        "\<not> (?b = ?r \<and> ?b \<noteq> ?l)"
    by blast
  then show ?case
  proof cases
    case stop
    then show ?thesis
      using "1.prems" by (subst (1 2) mergeLines_loop.simps) simp
  next
    case same
    have eq: "mergeLines_loop bs ls rs bi li ri out regs
        = mergeLines_loop bs ls rs (Suc bi) (Suc li) (Suc ri) (out @ [?b]) regs"
    proof -
      note l = same(2) [THEN conjunct1, symmetric] and r = same(2) [THEN conjunct2, symmetric]
      show ?thesis by (subst mergeLines_loop.simps) (simp add: same(1) l r)
    qed
    show ?thesis
      unfolding eq by (rule "1.IH"(1) [OF same marked_push [OF "1.prems"]])
  next
    case remote
    have eq: "mergeLines_loop bs ls rs bi li ri out regs
        = mergeLines_loop bs ls rs (Suc bi) (Suc li) (Suc ri) (out @ [?r]) regs"
    proof -
      note l = remote(3) [THEN conjunct1, symmetric] and nr = remote(3) [THEN conjunct2]
      show ?thesis by (subst mergeLines_loop.simps) (simp add: remote(1) l nr)
    qed
    show ?thesis
      unfolding eq by (rule "1.IH"(2) [OF remote marked_push [OF "1.prems"]])
  next
    case local
    have eq: "mergeLines_loop bs ls rs bi li ri out regs
        = mergeLines_loop bs ls rs (Suc bi) (Suc li) (Suc ri) (out @ [?l]) regs"
    proof -
      note r = local(4) [THEN conjunct1, symmetric] and nl = local(4) [THEN conjunct2]
      show ?thesis by (subst mergeLines_loop.simps) (simp add: local(1) r nl)
    qed
    show ?thesis
      unfolding eq by (rule "1.IH"(3) [OF local marked_push [OF "1.prems"]])
  next
    case hunk
    let ?lc = "collect ls ?b li []" and ?rc = "collect rs ?b ri []"
    let ?out = "out @ [marker_local] @ fst ?lc @ [marker_sep] @ fst ?rc @ [marker_remote]"
    let ?reg = "\<lparr>startLine = length out, endLine = length ?out - 1,
         localContent = join_with [newline] (fst ?lc),
         remoteContent = join_with [newline] (fst ?rc)\<rparr>"
    have eq: "mergeLines_loop bs ls rs bi li ri out regs
        = mergeLines_loop bs ls rs (Suc bi) (snd ?lc) (snd ?rc) ?out (regs @ [?reg])"
    proof -
      from hunk have nl: "?b \<noteq> ?l" and nr: "?b \<noteq> ?r" by blast+
      show ?thesis by (subst mergeLines_loop.simps) (simp add: hunk(1) nl nr)
    qed
    show ?thesis
      unfolding eq by (rule "1.IH"(4) [OF hunk marked_hunk])
  qed
qed

lemma sublist_join_with: "x \<in> set xs \<Longrightarrow> sublist x (join_with sep xs)"
proof (induction sep xs rule: join_with.induct)
  case (1 sep)
  then show ?case by simp
next
  case (2 sep y)
  then show ?case by simp
next
  case (3 sep y z zs)
  show ?case
  proof (cases "x = y")
    case True
    then show ?thesis by simp
  next
    case False
    with 3 have "sublist x (join_with sep (z # zs))" by simp
    then obtain ps ss where "join_with sep (z # zs) = ps @ x @ ss"
      by (auto simp: sublist_def)
    then have "join_with sep (y # z # zs) = (y @ sep @ ps) @ x @ ss"
      by simp
    then show ?thesis
      unfolding sublist_def by blast
  qed
qed

lemma mergeLines_marked:
  "marked (fst (mergeLines bs ls rs)) (snd (mergeLines bs ls rs))"
  unfolding mergeLines_def by (rule mergeLines_loop_marked) (simp add: marked_def)


text \<open>Evaluating a merge on concrete texts.\<close>

lemmas merge_eval =
  threeWayMerge_def mergeLines_def mergeLines_loop.simps collect.simps line_at_def
  lit_def newline_def marker_local_def marker_sep_def marker_remote_def Let_def


text \<open>
  C4. \<open>threeWayMerge\<close> fails exactly when no fast path applies and the line scan
  recorded at least one region. When it fails, the merged text contains the marker
  \<open><<<<<<< LOCAL\<close> and the marker \<open>>>>>>>> REMOTE\<close>, and \<open>conflicts\<close> is the non-empty
  list of the recorded regions. For base \<open>Hello\<close>, local \<open>Hello World\<close> and remote
  \<open>Hello Universe\<close> the merge fails with one region and both markers.
\<close>

theorem threeWayMerge_failure:
  "(\<not> success (threeWayMerge base local remote))
     = (local \<noteq> remote \<and> base \<noteq> local \<and> base \<noteq> remote
        \<and> snd (mergeLines (split_on newline base) (split_on newline local)
                 (split_on newline remote)) \<noteq> [])
   \<and> (\<not> success (threeWayMerge base local remote) \<longrightarrow>
        str_includes (merged (threeWayMerge base local remote)) marker_local
        \<and> str_includes (merged (threeWayMerge base local remote)) marker_remote
        \<and> conflicts (threeWayMerge base local remote)
            = Some (snd (mergeLines (split_on newline base) (split_on newline local)
                 (split_on newline remote)))
        \<and> snd (mergeLines (split_on newline base) (split_on newline local)
                 (split_on newline remote)) \<noteq> [])"
proof -
  let ?res = "mergeLines (split_on newline base) (split_on newline local)
                 (split_on newline remote)"
  have fails: "(\<not> success (threeWayMerge base local remote))
     = (local \<noteq> remote \<and> base \<noteq> local \<and> base \<noteq> remote \<and> snd ?res \<noteq> [])"
    by (simp add: threeWayMerge_def Let_def)
  have "str_includes (merged (threeWayMerge base local remote)) marker_local
        \<and> str_includes (merged (threeWayMerge base local remote)) marker_remote
        \<and> conflicts (threeWayMerge base local remote) = Some (snd ?res)
        \<and> snd ?res \<noteq> []"
    if f: "\<not> success (threeWayMerge base local remote)"
  proof -
    from f fails have ne: "local \<noteq> remote" "base \<noteq> local" "base \<noteq> remote" "snd ?res \<noteq> []"
      by simp_all
    then have m: "merged (threeWayMerge base local remote) = join_with [newline] (fst ?res)"
      and c: "conflicts (threeWayMerge base local remote) = Some (snd ?res)"
      by (simp_all add: threeWayMerge_def Let_def)
    from mergeLines_marked [of "split_on newline base" "split_on newline local"
        "split_on newline remote"] ne(4)
    have "marker_local \<in> set (fst ?res)" and "marker_remote \<in> set (fst ?res)"
      by (simp_all add: marked_def)
    then have "sublist marker_local (join_with [newline] (fst ?res))"
      and "sublist marker_remote (join_with [newline] (fst ?res))"
      by (simp_all add: sublist_join_with)
    with m c ne(4) show ?thesis
      by (simp add: str_includes_def)
  qed
  with fails show ?thesis by blast
qed


theorem threeWayMerge_failure_witness:
  "\<not> success (threeWayMerge (lit ''Hello'') (lit ''Hello World'') (lit ''Hello Universe''))
   \<and> str_includes
        (merged (threeWayMerge (lit ''Hello'') (lit ''Hello World'') (lit ''Hello Universe'')))
        (lit ''<<<<<<< LOCAL'')
   \<and> str_includes
        (merged (threeWayMerge (lit ''Hello'') (lit ''Hello World'') (lit ''Hello Universe'')))
        (lit ''>>>>>>> REMOTE'')
   \<and> conflicts (threeWayMerge (lit ''Hello'') (lit ''Hello World'') (lit ''Hello Universe''))
       = Some [\<lparr>startLine = 0, endLine = 4, localContent = lit ''Hello World'',
                remoteContent = lit ''Hello Universe''\<rparr>]"
proof -
  have f: "\<not> success (threeWayMerge (lit ''Hello'') (lit ''Hello World'') (lit ''Hello Universe''))"
    by (simp add: merge_eval)
  have c: "snd (mergeLines (split_on newline (lit ''Hello'')) (split_on newline (lit ''Hello World''))
                 (split_on newline (lit ''Hello Universe'')))
       = [\<lparr>startLine = 0, endLine = 4, localContent = lit ''Hello World'',
                remoteContent = lit ''Hello Universe''\<rparr>]"
    by (simp add: merge_eval)
  from threeWayMerge_failure [of "lit ''Hello''" "lit ''Hello World''" "lit ''Hello Universe''"] f c
  show ?thesis
    by (simp add: marker_local_def marker_remote_def)
qed
subsection \<open>Automatic resolution\<close>

lemma str_includes_parts:
  "str_includes (a @ p @ m @ q @ b) a
   \<and> str_includes (a @ p @ m @ q @ b) m
   \<and> str_includes (a @ p @ m @ q @ b) b"
proof -
  have "sublist a (a @ p @ m @ q @ b)"
    by (rule sublist_append_rightI)
  moreover have "sublist m ((a @ p) @ m @ (q @ b))"
    by (rule sublist_appendI)
  moreover have "sublist b ((a @ p @ m @ q) @ b)"
    by (rule sublist_append_leftI)
  ultimately show ?thesis
    by (simp add: str_includes_def)
qed

text \<open>
  C3. For a conflict whose two sides are present, \<open>autoResolve\<close> returns: under
  \<open>last-write-wins\<close> the content of the side with the larger timestamp (the remote one
  on a tie); under \<open>first-write-wins\<close> that of the side with the smaller timestamp (the
  remote one on a tie); under \<open>local-wins\<close> the local and under \<open>remote-wins\<close> the
  remote content; under \<open>merge-both\<close> the local content, two line feeds, the marker
  \<open>--- MERGED FROM REMOTE ---\<close>, two line feeds, the remote content, a text that
  contains the local content, the marker and the remote content. Any other strategy fails
  with \<open>UnknownStrategy\<close>. With local \<open>"A"\<close> at 1000 and remote \<open>"B"\<close> at 2000 the
  results are \<open>"B"\<close>, \<open>"A"\<close>, \<open>"A"\<close>, \<open>"B"\<close> and \<open>"A"\<close>, the separator, \<open>"B"\<close>.
\<close>

theorem autoResolve_strategies:
  assumes "localVersion c = Some l" and "remoteVersion c = Some r"
  shows "autoResolve c (lit ''last-write-wins'')
           = Inr (if timestamp r < timestamp l then content l else content r)
       \<and> autoResolve c (lit ''first-write-wins'')
           = Inr (if timestamp l < timestamp r then content l else content r)
       \<and> autoResolve c (lit ''local-wins'') = Inr (content l)
       \<and> autoResolve c (lit ''remote-wins'') = Inr (content r)
       \<and> autoResolve c (lit ''merge-both'')
           = Inr (content l @ [0x0A, 0x0A] @ lit ''--- MERGED FROM REMOTE ---''
                  @ [0x0A, 0x0A] @ content r)
       \<and> str_includes (content l @ [0x0A, 0x0A] @ lit ''--- MERGED FROM REMOTE ---''
                  @ [0x0A, 0x0A] @ content r) (content l)
       \<and> str_includes (content l @ [0x0A, 0x0A] @ lit ''--- MERGED FROM REMOTE ---''
                  @ [0x0A, 0x0A] @ content r) (lit ''--- MERGED FROM REMOTE ---'')
       \<and> str_includes (content l @ [0x0A, 0x0A] @ lit ''--- MERGED FROM REMOTE ---''
                  @ [0x0A, 0x0A] @ content r) (content r)
       \<and> (s \<notin> {lit ''last-write-wins'', lit ''first-write-wins'', lit ''local-wins'',
                 lit ''remote-wins'', lit ''merge-both''}
            \<longrightarrow> autoResolve c s = Inl (UnknownStrategy s))"
proof -
  let ?both = "content l @ [0x0A, 0x0A] @ lit ''--- MERGED FROM REMOTE ---''
                  @ [0x0A, 0x0A] @ content r"
  have "autoResolve c (lit ''last-write-wins'')
           = Inr (if timestamp r < timestamp l then content l else content r)"
    using assms by (simp add: autoResolve_def)
  moreover have "autoResolve c (lit ''first-write-wins'')
           = Inr (if timestamp l < timestamp r then content l else content r)"
    using assms by (simp add: autoResolve_def lit_def)
  moreover have "autoResolve c (lit ''local-wins'') = Inr (content l)"
    using assms by (simp add: autoResolve_def lit_def)
  moreover have "autoResolve c (lit ''remote-wins'') = Inr (content r)"
    using assms by (simp add: autoResolve_def lit_def)
  moreover have "autoResolve c (lit ''merge-both'') = Inr ?both"
    using assms
    by (simp add: autoResolve_def mergeBoth_def merge_separator_def newline_def lit_def)
  moreover have "str_includes ?both (content l)
      \<and> str_includes ?both (lit ''--- MERGED FROM REMOTE ---'')
      \<and> str_includes ?both (content r)"
    by (rule str_includes_parts)
  moreover have "s \<notin> {lit ''last-write-wins'', lit ''first-write-wins'', lit ''local-wins'',
                 lit ''remote-wins'', lit ''merge-both''}
            \<longrightarrow> autoResolve c s = Inl (UnknownStrategy s)"
    by (simp add: autoResolve_def)
  ultimately show ?thesis by blast
qed

theorem autoResolve_strategies_witness:
  "autoResolve ex_conflict_AB (lit ''last-write-wins'') = Inr (lit ''B'')
   \<and> autoResolve ex_conflict_AB (lit ''first-write-wins'') = Inr (lit ''A'')
   \<and> autoResolve ex_conflict_AB (lit ''local-wins'') = Inr (lit ''A'')
   \<and> autoResolve ex_conflict_AB (lit ''remote-wins'') = Inr (lit ''B'')
   \<and> autoResolve ex_conflict_AB (lit ''merge-both'')
       = Inr (lit ''A'' @ [0x0A, 0x0A] @ lit ''--- MERGED FROM REMOTE ---''
              @ [0x0A, 0x0A] @ lit ''B'')
   \<and> str_includes (lit ''A'' @ [0x0A, 0x0A] @ lit ''--- MERGED FROM REMOTE ---''
              @ [0x0A, 0x0A] @ lit ''B'') (lit ''A'')
   \<and> str_includes (lit ''A'' @ [0x0A, 0x0A] @ lit ''--- MERGED FROM REMOTE ---''
              @ [0x0A, 0x0A] @ lit ''B'') (lit ''--- MERGED FROM REMOTE ---'')
   \<and> str_includes (lit ''A'' @ [0x0A, 0x0A] @ lit ''--- MERGED FROM REMOTE ---''
              @ [0x0A, 0x0A] @ lit ''B'') (lit ''B'')
   \<and> autoResolve ex_conflict_AB (lit ''unknown-strategy'')
       = Inl (UnknownStrategy (lit ''unknown-strategy''))"
  using autoResolve_strategies [of ex_conflict_AB
      "\<lparr>content = lit ''A'', version = 1, timestamp = 1000,
        deviceId = lit ''device-1'', hash = lit ''hash1''\<rparr>"
      "\<lparr>content = lit ''B'', version = 1, timestamp = 2000,
        deviceId = lit ''device-2'', hash = lit ''hash2''\<rparr>"
      "lit ''unknown-strategy''"]
  by (simp add: ex_conflict_AB_def) (simp add: lit_def)

subsection \<open>The resolver\<close>

lemma autoResolve_lww_error:
  "autoResolve c (lit ''last-write-wins'') = Inl e \<Longrightarrow> e = TypeError"
  by (auto simp: autoResolve_def split: option.splits)

lemma auto_merge_not_manual: "lit ''auto-merge'' \<noteq> lit ''manual''"
  by (simp add: lit_def)


text \<open>
  C6. \<open>resolve(conflict, 'auto-merge')\<close>: with a common ancestor (and both sides
  present) it runs the three-way merge of ancestor, local and remote and returns the
  merged text when the merge succeeds, and the result of
  \<open>autoResolve(conflict, 'last-write-wins')\<close> when the merge fails; without a common
  ancestor it returns the result of \<open>autoResolve(conflict, 'last-write-wins')\<close>. The
  merge's failure and its regions never reach the caller: the only error is the
  TypeError of a conflict with a missing side, which \<open>last-write-wins\<close> raises as well.
\<close>

theorem resolve_auto_merge:
  "(commonAncestor c = None \<longrightarrow>
      resolve rs c (lit ''auto-merge'') = autoResolve c (lit ''last-write-wins''))
   \<and> (commonAncestor c = Some a \<and> localVersion c = Some l \<and> remoteVersion c = Some r \<longrightarrow>
      resolve rs c (lit ''auto-merge'') =
        (if success (threeWayMerge (content a) (content l) (content r))
         then Inr (merged (threeWayMerge (content a) (content l) (content r)))
         else autoResolve c (lit ''last-write-wins'')))
   \<and> (commonAncestor c = Some a \<and> (localVersion c = None \<or> remoteVersion c = None) \<longrightarrow>
      resolve rs c (lit ''auto-merge'') = Inl TypeError
      \<and> autoResolve c (lit ''last-write-wins'') = Inl TypeError)
   \<and> (\<forall>e. resolve rs c (lit ''auto-merge'') = Inl e \<longrightarrow> e = TypeError)"
proof -
  note nm = auto_merge_not_manual
  have none: "resolve rs c (lit ''auto-merge'') = autoResolve c (lit ''last-write-wins'')"
    if "commonAncestor c = None"
    using that nm by (simp add: resolve_def)
  have both: "resolve rs c (lit ''auto-merge'') =
        (if success (threeWayMerge (content a) (content l) (content r))
         then Inr (merged (threeWayMerge (content a) (content l) (content r)))
         else autoResolve c (lit ''last-write-wins''))"
    if "commonAncestor c = Some a" "localVersion c = Some l" "remoteVersion c = Some r"
    using that nm by (simp add: resolve_def Let_def)
  have broken: "resolve rs c (lit ''auto-merge'') = Inl TypeError
      \<and> autoResolve c (lit ''last-write-wins'') = Inl TypeError"
    if "commonAncestor c = Some a" "localVersion c = None \<or> remoteVersion c = None"
    using that nm by (auto simp: resolve_def autoResolve_def split: option.splits)
  have err: "e = TypeError" if "resolve rs c (lit ''auto-merge'') = Inl e" for e
    using that nm
    by (auto simp: resolve_def Let_def split: option.splits if_splits
        dest: autoResolve_lww_error)
  from none both broken err show ?thesis by blast
qed


theorem resolve_auto_merge_witness:
  "resolve (new_ConflictResolver ex_options) ex_conflict_mergeable (lit ''auto-merge'')
     = Inr (lit ''Hello World'')
   \<and> \<not> success (threeWayMerge (lit ''Original'') (lit ''Local changes'') (lit ''Remote changes''))
   \<and> resolve (new_ConflictResolver ex_options) ex_conflict_unmergeable (lit ''auto-merge'')
     = Inr (lit ''Remote changes'')"
proof -
  have ok: "threeWayMerge (lit ''Hello'') (lit ''Hello'') (lit ''Hello World'')
      = \<lparr>success = True, merged = lit ''Hello World'', conflicts = None\<rparr>"
    by (simp add: threeWayMerge_def lit_def)
  have bad: "\<not> success (threeWayMerge (lit ''Original'') (lit ''Local changes'')
      (lit ''Remote changes''))"
    by (simp add: merge_eval)
  have lww: "autoResolve ex_conflict_unmergeable (lit ''last-write-wins'')
      = Inr (lit ''Remote changes'')"
    by (simp add: autoResolve_def ex_conflict_unmergeable_def vc_def)
  from resolve_auto_merge [where c = ex_conflict_mergeable
      and a = "vc ''Hello'' 0 500 ''device-1''"
      and l = "vc ''Hello'' 1 1000 ''device-1''"
      and r = "vc ''Hello World'' 1 2000 ''device-2''"
      and rs = "new_ConflictResolver ex_options"]
    resolve_auto_merge [where c = ex_conflict_unmergeable
      and a = "vc ''Original'' 0 500 ''device-1''"
      and l = "vc ''Local changes'' 1 1000 ''device-1''"
      and r = "vc ''Remote changes'' 1 2000 ''device-2''"
      and rs = "new_ConflictResolver ex_options"]
    ok bad lww
  show ?thesis
    by (simp add: ex_conflict_mergeable_def ex_conflict_unmergeable_def vc_def)
qed
lemma resolve_queue_irrelevant [simp]:
  "resolve (rs\<lparr>conflictQueue := q\<rparr>) c s = resolve rs c s"
  "resolve (rs\<lparr>resolving := b\<rparr>) c s = resolve rs c s"
  by (simp_all add: resolve_def)

lemma succeeded_state_irrelevant [simp]:
  "succeeded s (rs\<lparr>conflictQueue := q\<rparr>) items = succeeded s rs items"
  "succeeded s (rs\<lparr>resolving := b\<rparr>) items = succeeded s rs items"
  by (induction items) (simp_all split: sum.splits)

lemma resolveAll_loop_distinct:
  "distinct (map item_id q) \<Longrightarrow>
   resolveAll_loop s (rs\<lparr>conflictQueue := q\<rparr>) acc
     = (rs\<lparr>conflictQueue := []\<rparr>, acc @ succeeded s rs q)"
proof (induction q arbitrary: acc)
  case Nil
  show ?case by (subst resolveAll_loop.simps) simp
next
  case (Cons x xs)
  from Cons.prems have d: "distinct (map item_id xs)" and nx: "item_id x \<notin> item_id ` set xs"
    by simp_all
  from nx have "\<forall>y\<in>set xs. item_id y \<noteq> item_id x"
    by (metis image_eqI)
  then have f: "filter (\<lambda>item. item_id item \<noteq> item_id x) xs = xs"
    by (rule filter_True)
  show ?case
  proof (cases "resolve rs (item_conflict x) s")
    case (Inl e)
    then show ?thesis
      using Cons.IH [OF d, of acc] by (subst resolveAll_loop.simps) simp
  next
    case (Inr res)
    then show ?thesis
      using Cons.IH [OF d, of "acc @ [(item_id x, res)]"] f
      by (subst resolveAll_loop.simps) (simp add: removeConflict_def)
  qed
qed

lemma resolveAll_loop_drains:
  "conflictQueue (fst (resolveAll_loop s rs acc)) = []
   \<and> resolving (fst (resolveAll_loop s rs acc)) = resolving rs"
proof (induction s rs acc rule: resolveAll_loop.induct)
  case (1 strategy rs results)
  show ?case
  proof (cases "conflictQueue rs")
    case Nil
    then show ?thesis by (subst (1 2) resolveAll_loop.simps) simp
  next
    case (Cons x xs)
    show ?thesis
    proof (cases "resolve rs (item_conflict x) strategy")
      case (Inl e)
      with Cons "1.IH"(1) [of e] show ?thesis
        by (subst (1 2) resolveAll_loop.simps) simp
    next
      case (Inr res)
      with Cons "1.IH"(2) [of res] show ?thesis
        by (subst (1 2) resolveAll_loop.simps) (simp add: removeConflict_def)
    qed
  qed
qed


text \<open>The queue of two items with one id.\<close>

lemma to_radix_10_1000: "number_toString 10 1000 = lit ''1000''"
  by (simp add: number_toString_def to_radix.simps digit_char_def lit_def)

lemma ex_two_enqueued_queue:
  "fst ex_two_enqueued =
     (new_ConflictResolver ex_options)
       \<lparr>conflictQueue :=
          [\<lparr>item_conflict = ex_conflict_AB, item_timestamp = 1000,
             item_id = lit ''conflict_1000_abcdefghi''\<rparr>,
           \<lparr>item_conflict = ex_conflict_unmergeable, item_timestamp = 1000,
             item_id = lit ''conflict_1000_abcdefghi''\<rparr>]\<rparr>"
  by (simp add: ex_two_enqueued_def enqueueConflict_def Let_def Date_now_def
      Math_random_toString36_def ex_world_frozen_def conflict_id_def substr_def
      to_radix_10_1000 new_ConflictResolver_def)
     (simp add: lit_def)


lemma resolveAll_distinct_ids:
  "(resolving rs \<longrightarrow> resolveAll s rs = (Inl AlreadyResolving, rs))
   \<and> (\<not> resolving rs \<longrightarrow>
        (\<exists>results. fst (resolveAll s rs) = Inr results)
        \<and> conflictQueue (snd (resolveAll s rs)) = []
        \<and> \<not> resolving (snd (resolveAll s rs)))
   \<and> (\<not> resolving rs \<and> distinct (map item_id (conflictQueue rs)) \<longrightarrow>
        resolveAll s rs
          = (Inr (succeeded s rs (conflictQueue rs)), rs\<lparr>conflictQueue := []\<rparr>))"
proof -
  have busy: "resolveAll s rs = (Inl AlreadyResolving, rs)" if "resolving rs"
    using that by (simp add: resolveAll_def)
  have idle: "(\<exists>results. fst (resolveAll s rs) = Inr results)
        \<and> conflictQueue (snd (resolveAll s rs)) = []
        \<and> \<not> resolving (snd (resolveAll s rs))" if "\<not> resolving rs"
    using that resolveAll_loop_drains [of s "rs\<lparr>resolving := True\<rparr>" "[]"]
    by (simp add: resolveAll_def Let_def)
  have exact: "resolveAll s rs
          = (Inr (succeeded s rs (conflictQueue rs)), rs\<lparr>conflictQueue := []\<rparr>)"
    if "\<not> resolving rs" "distinct (map item_id (conflictQueue rs))"
  proof -
    have "rs\<lparr>resolving := True\<rparr> = (rs\<lparr>resolving := True\<rparr>)\<lparr>conflictQueue := conflictQueue rs\<rparr>"
      by simp
    then have "resolveAll_loop s (rs\<lparr>resolving := True\<rparr>) []
        = ((rs\<lparr>resolving := True\<rparr>)\<lparr>conflictQueue := []\<rparr>,
           [] @ succeeded s (rs\<lparr>resolving := True\<rparr>) (conflictQueue rs))"
      using resolveAll_loop_distinct [OF that(2), of s "rs\<lparr>resolving := True\<rparr>" "[]"]
      by simp
    with that(1) show ?thesis
      by (simp add: resolveAll_def Let_def)
  qed
  from busy idle exact show ?thesis by blast
qed

text \<open>The batch of the resolver's test: the malformed conflict is dropped, the well-formed
  one resolved.\<close>

lemma resolveAll_malformed_then_good:
  "resolveAll (lit ''last-write-wins'') ex_resolver
     = (Inr [(lit ''conflict_2_b'', lit ''B'')], ex_resolver\<lparr>conflictQueue := []\<rparr>)"
  using resolveAll_distinct_ids [of ex_resolver "lit ''last-write-wins''"]
  by (simp add: ex_resolver_def new_ConflictResolver_def resolve_def autoResolve_def
      ex_bad_conflict_def ex_conflict_AB_def lit_def)

text \<open>
  C7. The queue that two calls of \<open>enqueueConflict\<close> build when the clock and the
  random source repeat holds two conflicts under one id. \<open>resolve\<close> with
  \<open>last-write-wins\<close> succeeds on each of them, so the \<open>{id, resolved}\<close> pairs of the
  items that succeed are two. \<open>resolveAll('last-write-wins')\<close> returns the first pair
  only and leaves the queue empty: the \<open>removeConflict(item.id)\<close> that follows the
  first success removes both items, and the second is never resolved.
\<close>

theorem resolveAll_same_id_drops_item:
  "conflictQueue (fst ex_two_enqueued)
     = [\<lparr>item_conflict = ex_conflict_AB, item_timestamp = 1000,
          item_id = lit ''conflict_1000_abcdefghi''\<rparr>,
        \<lparr>item_conflict = ex_conflict_unmergeable, item_timestamp = 1000,
          item_id = lit ''conflict_1000_abcdefghi''\<rparr>]
   \<and> resolving (fst ex_two_enqueued) = False
   \<and> resolve (fst ex_two_enqueued) ex_conflict_AB (lit ''last-write-wins'') = Inr (lit ''B'')
   \<and> resolve (fst ex_two_enqueued) ex_conflict_unmergeable (lit ''last-write-wins'')
       = Inr (lit ''Remote changes'')
   \<and> succeeded (lit ''last-write-wins'') (fst ex_two_enqueued)
        (conflictQueue (fst ex_two_enqueued))
       = [(lit ''conflict_1000_abcdefghi'', lit ''B''),
          (lit ''conflict_1000_abcdefghi'', lit ''Remote changes'')]
   \<and> resolveAll (lit ''last-write-wins'') (fst ex_two_enqueued)
       = (Inr [(lit ''conflict_1000_abcdefghi'', lit ''B'')], new_ConflictResolver ex_options)"
proof -
  have r1: "resolve rs ex_conflict_AB (lit ''last-write-wins'') = Inr (lit ''B'')" for rs
    by (simp add: resolve_def autoResolve_def ex_conflict_AB_def lit_def)
  have r2: "resolve rs ex_conflict_unmergeable (lit ''last-write-wins'')
      = Inr (lit ''Remote changes'')" for rs
    by (simp add: resolve_def autoResolve_def ex_conflict_unmergeable_def vc_def lit_def)
  show ?thesis
    unfolding ex_two_enqueued_queue
    by (simp add: r1 r2 resolveAll_def Let_def resolveAll_loop.simps removeConflict_def
        new_ConflictResolver_def)
qed

subsection \<open>Ids of queued items\<close>

lemma unat_digit_char: "d < 10 \<Longrightarrow> unat (digit_char d) = 48 + d"
proof -
  assume d: "d < 10"
  have "unat (word_of_nat (48 + d) :: 16 word) = (48 + d) mod 2 ^ LENGTH(16)"
    by (rule unat_of_nat)
  with d show ?thesis
    by (simp add: digit_char_def)
qed

lemma digit_value_to_radix: "digit_value (to_radix 10 n) = n"
proof (induction "10 :: nat" n rule: to_radix.induct)
  case (1 n)
  show ?case
  proof (cases "n < 10")
    case True
    then show ?thesis
      by (subst to_radix.simps) (simp add: digit_value_def unat_digit_char)
  next
    case False
    with 1 have "digit_value (to_radix 10 (n div 10)) = n div 10"
      by simp
    with False show ?thesis
      by (subst to_radix.simps) (simp add: digit_value_def unat_digit_char)
  qed
qed

lemma to_radix_digits: "c \<in> set (to_radix 10 n) \<Longrightarrow> 48 \<le> unat c \<and> unat c \<le> 57"
proof (induction "10 :: nat" n rule: to_radix.induct)
  case (1 n)
  show ?case
  proof (cases "n < 10")
    case True
    with "1.prems" have "c = digit_char n"
      by (subst (asm) to_radix.simps) simp
    with True show ?thesis by (simp add: unat_digit_char)
  next
    case False
    with "1.prems" have "c \<in> set (to_radix 10 (n div 10)) \<or> c = digit_char (n mod 10)"
      by (subst (asm) to_radix.simps) auto
    then show ?thesis
    proof
      assume "c \<in> set (to_radix 10 (n div 10))"
      with False "1.hyps" show ?thesis by simp
    next
      assume "c = digit_char (n mod 10)"
      then show ?thesis by (simp add: unat_digit_char)
    qed
  qed
qed

lemma to_radix_inj: "to_radix 10 n = to_radix 10 m \<Longrightarrow> n = m"
  by (metis digit_value_to_radix)

lemma number_toString_chars:
  "c \<in> set (number_toString 10 i) \<Longrightarrow> c = 45 \<or> (48 \<le> unat c \<and> unat c \<le> 57)"
  by (auto simp: number_toString_def lit_def dest: to_radix_digits split: if_splits)

lemma number_toString_no_underscore: "95 \<notin> set (number_toString 10 i)"
proof
  assume "95 \<in> set (number_toString 10 i)"
  from number_toString_chars [OF this] show False by simp
qed

lemma to_radix_no_minus: "to_radix 10 n \<noteq> 45 # ds"
proof
  assume e: "to_radix 10 n = 45 # ds"
  then have "45 \<in> set (to_radix 10 n)" by simp
  from to_radix_digits [OF this] show False by simp
qed

lemma number_toString_inj: "number_toString 10 i = number_toString 10 j \<Longrightarrow> i = j"
proof -
  assume e: "number_toString 10 i = number_toString 10 j"
  consider (nn) "i < 0" "j < 0" | (np) "i < 0" "\<not> j < 0" | (pn) "\<not> i < 0" "j < 0"
    | (pp) "\<not> i < 0" "\<not> j < 0"
    by blast
  then show ?thesis
  proof cases
    case nn
    with e have "to_radix 10 (nat (- i)) = to_radix 10 (nat (- j))"
      by (simp add: number_toString_def)
    then have "nat (- i) = nat (- j)" by (rule to_radix_inj)
    with nn show ?thesis by simp
  next
    case np
    with e have "to_radix 10 (nat j) = 45 # to_radix 10 (nat (- i))"
      by (simp add: number_toString_def lit_def)
    then show ?thesis by (simp add: to_radix_no_minus)
  next
    case pn
    with e have "to_radix 10 (nat i) = 45 # to_radix 10 (nat (- j))"
      by (simp add: number_toString_def lit_def)
    then show ?thesis by (simp add: to_radix_no_minus)
  next
    case pp
    with e have "to_radix 10 (nat i) = to_radix 10 (nat j)"
      by (simp add: number_toString_def)
    then have "nat i = nat j" by (rule to_radix_inj)
    with pp show ?thesis by simp
  qed
qed

lemma split_at_first:
  "xs @ a # ys = xs' @ a # ys' \<Longrightarrow> a \<notin> set xs \<Longrightarrow> a \<notin> set xs' \<Longrightarrow> xs = xs' \<and> ys = ys'"
proof (induction xs arbitrary: xs')
  case Nil
  then show ?case by (cases xs') auto
next
  case (Cons x xs)
  then show ?case by (cases xs') auto
qed

lemma conflict_id_inj:
  "(conflict_id t1 r1 = conflict_id t2 r2) = (t1 = t2 \<and> substr 2 9 r1 = substr 2 9 r2)"
proof
  assume "conflict_id t1 r1 = conflict_id t2 r2"
  then have "number_toString 10 t1 @ 95 # substr 2 9 r1
      = number_toString 10 t2 @ 95 # substr 2 9 r2"
    by (simp add: conflict_id_def lit_def)
  from split_at_first [OF this number_toString_no_underscore number_toString_no_underscore]
  show "t1 = t2 \<and> substr 2 9 r1 = substr 2 9 r2"
    by (auto dest: number_toString_inj)
next
  assume "t1 = t2 \<and> substr 2 9 r1 = substr 2 9 r2"
  then show "conflict_id t1 r1 = conflict_id t2 r2"
    by (simp add: conflict_id_def)
qed


lemma key_id_inj: "inj key_id"
proof (rule injI)
  fix k k' :: "int \<times> jsstring"
  assume "key_id k = key_id k'"
  then have "number_toString 10 (fst k) @ 95 # snd k
      = number_toString 10 (fst k') @ 95 # snd k'"
    by (simp add: key_id_def lit_def)
  from split_at_first [OF this number_toString_no_underscore number_toString_no_underscore]
  show "k = k'"
    by (auto dest: number_toString_inj simp: prod_eq_iff)
qed

lemma enqueueAll_ids:
  "map item_id (conflictQueue (fst (enqueueAll cs (rs, w))))
     = map item_id (conflictQueue rs) @ map (\<lambda>i. key_id (id_key w i)) [0..<length cs]"
proof (induction cs arbitrary: rs w)
  case Nil
  show ?case by simp
next
  case (Cons c cs)
  let ?rs = "rs\<lparr>conflictQueue := conflictQueue rs @
      [\<lparr>item_conflict = c, item_timestamp = clock w (ticks w),
        item_id = conflict_id (clock w (Suc (ticks w))) (random36 w (draws w))\<rparr>]\<rparr>"
  let ?w = "w\<lparr>ticks := Suc (Suc (ticks w)), draws := Suc (draws w)\<rparr>"
  have step: "enqueueConflict c (rs, w) = (?rs, ?w)"
    by (simp add: enqueueConflict_def Let_def Date_now_def Math_random_toString36_def)
  have key: "id_key ?w i = id_key w (Suc i)" for i
    by (simp add: id_key_def)
  have first: "conflict_id (clock w (Suc (ticks w))) (random36 w (draws w)) = key_id (id_key w 0)"
    by (simp add: conflict_id_def key_id_def id_key_def)
  have "map (\<lambda>i. key_id (id_key w i)) [0..<length (c # cs)]
      = key_id (id_key w 0) # map (\<lambda>i. key_id (id_key w (Suc i))) [0..<length cs]"
    by (simp add: map_upt_Suc del: upt_Suc)
  with Cons.IH [of ?rs ?w] step key first show ?case
    by simp
qed


text \<open>The id of a queued item is determined by, and determines, the clock reading and
  the nine random characters that \<open>enqueueConflict\<close> puts into it: the ids that a run of
  calls adds to an empty queue are pairwise different exactly when these pairs are.\<close>

lemma enqueued_ids_distinct:
  "(conflictQueue rs = [] \<longrightarrow>
      distinct (map item_id (conflictQueue (fst (enqueueAll cs (rs, w)))))
        = distinct (map (id_key w) [0..<length cs]))
   \<and> (conflict_id t1 r1 = conflict_id t2 r2) = (t1 = t2 \<and> substr 2 9 r1 = substr 2 9 r2)"
proof -
  have "inj_on key_id (set (map (id_key w) [0..<length cs]))"
    by (rule inj_on_subset [OF key_id_inj]) simp
  then have "distinct (map key_id (map (id_key w) [0..<length cs]))
      = distinct (map (id_key w) [0..<length cs])"
    by (simp only: distinct_map simp_thms)
  then have "distinct (map item_id (conflictQueue (fst (enqueueAll cs (rs, w)))))
        = distinct (map (id_key w) [0..<length cs])" if "conflictQueue rs = []"
    using that enqueueAll_ids [of cs rs w] by (simp add: comp_def)
  with conflict_id_inj show ?thesis by blast
qed

text \<open>
  C9. When \<open>Date.now()\<close> returns 1000 at every reading and
  \<open>Math.random().toString(36)\<close> returns \<open>0.abcdefghijk\<close> at both draws, two calls of
  \<open>enqueueConflict\<close> on a new resolver queue two different conflicts under the one
  id \<open>conflict_1000_abcdefghi\<close>: the ids in the queue are not pairwise different.
\<close>

theorem enqueueConflict_same_id:
  "map item_id (conflictQueue (fst ex_two_enqueued))
     = [lit ''conflict_1000_abcdefghi'', lit ''conflict_1000_abcdefghi'']
   \<and> map item_conflict (conflictQueue (fst ex_two_enqueued))
     = [ex_conflict_AB, ex_conflict_unmergeable]
   \<and> ex_conflict_AB \<noteq> ex_conflict_unmergeable
   \<and> distinct (map item_id (conflictQueue (fst ex_two_enqueued))) = False"
  unfolding ex_two_enqueued_queue
  by (simp add: ex_conflict_AB_def ex_conflict_unmergeable_def vc_def lit_def)

subsection \<open>The manager\<close>

lemma versioned_content: "content (fst (versioned dflt d w)) = d_content d"
  by (simp add: versioned_def Let_def)

lemma enqueue_and_report_result:
  "fst (enqueue_and_report c m w) = \<lparr>hasConflict = True, resolved = None, conflict = Some c\<rparr>
   \<and> conflictQueue (m_resolver (fst (snd (enqueue_and_report c m w))))
       = conflictQueue (m_resolver m) @
         [\<lparr>item_conflict = c, item_timestamp = clock w (ticks w),
           item_id = conflict_id (clock w (Suc (ticks w))) (random36 w (draws w))\<rparr>]"
  by (simp add: enqueue_and_report_def enqueueConflict_def Let_def Date_now_def
      Math_random_toString36_def)

lemma fire_clock [simp]:
  "clock (fire c w) = clock w" "ticks (fire c w) = ticks w"
  "random36 (fire c w) = random36 w" "draws (fire c w) = draws w"
  by (simp_all add: fire_def)


lemma hashContent_A: "hashContent (lit ''A'') = lit ''1t''"
  by (simp add: hashContent_def hash_step_def number_toString_def to_radix.simps
      digit_char_def lit_def)

lemma hashContent_B: "hashContent (lit ''B'') = lit ''1u''"
  by (simp add: hashContent_def hash_step_def number_toString_def to_radix.simps
      digit_char_def lit_def)

lemma ex_sides:
  "local_of ex_data_A w = (ex_side_A, w)"
  "remote_of ex_data_A ex_data_B w = (ex_side_B, w)"
  "remote_of ex_data_A ex_data_A w = (ex_side_A\<lparr>deviceId := lit ''remote''\<rparr>, w)"
  by (simp_all add: local_of_def remote_of_def versioned_def ex_data_A_def ex_data_B_def
      ex_side_A_def ex_side_B_def num_or_def str_or_def hashContent_A hashContent_B)

lemma ex_detected:
  "detected m ex_data_A ex_data_A w = None"
  "detected m ex_data_A ex_data_B w = Some (mk_conflict concurrent_edit ex_side_A ex_side_B)"
  by (simp_all add: detected_def ex_sides detectConflict_def)
     (simp add: ex_side_A_def ex_side_B_def lit_def)


text \<open>
  C2. When the detector finds no conflict between the two values built from the inputs,
  \<open>checkAndHandle\<close> returns \<open>{hasConflict: false, resolved: remote.content, conflict:
  null}\<close> and leaves the manager as it is. When it finds a conflict and either no
  strategy, the empty one or \<open>manual\<close> is configured or the configured strategy fails
  to resolve it, the result is \<open>{hasConflict: true, resolved: null, conflict}\<close> and the
  queue has grown at its end by one item holding that conflict.
\<close>

theorem checkAndHandle_outcomes:
  "(detected m localData remoteData w = None \<longrightarrow>
      checkAndHandle m localData remoteData w
        = (\<lparr>hasConflict = False, resolved = Some (d_content remoteData), conflict = None\<rparr>,
           m, snd (remote_of localData remoteData w)))
   \<and> (detected m localData remoteData w = Some c
      \<and> (autoResolveStrategy m = None \<or> autoResolveStrategy m = Some []
          \<or> autoResolveStrategy m = Some (lit ''manual'')
          \<or> (\<exists>s e. autoResolveStrategy m = Some s \<and> resolve (m_resolver m) c s = Inl e)) \<longrightarrow>
      fst (checkAndHandle m localData remoteData w)
        = \<lparr>hasConflict = True, resolved = None, conflict = Some c\<rparr>
      \<and> (\<exists>item. item_conflict item = c
            \<and> conflictQueue (m_resolver (fst (snd (checkAndHandle m localData remoteData w))))
                = conflictQueue (m_resolver m) @ [item]))"
proof -
  let ?r = "remote_of localData remoteData w"
  have none: "checkAndHandle m localData remoteData w
        = (\<lparr>hasConflict = False, resolved = Some (d_content remoteData), conflict = None\<rparr>,
           m, snd ?r)"
    if "detected m localData remoteData w = None"
    using that
    by (simp add: checkAndHandle_def detected_def local_of_def remote_of_def Let_def
        versioned_content)
  have queued: "fst (checkAndHandle m localData remoteData w)
        = \<lparr>hasConflict = True, resolved = None, conflict = Some c\<rparr>
      \<and> (\<exists>item. item_conflict item = c
            \<and> conflictQueue (m_resolver (fst (snd (checkAndHandle m localData remoteData w))))
                = conflictQueue (m_resolver m) @ [item])"
    if d: "detected m localData remoteData w = Some c"
      and a: "autoResolveStrategy m = None \<or> autoResolveStrategy m = Some []
          \<or> autoResolveStrategy m = Some (lit ''manual'')
          \<or> (\<exists>s e. autoResolveStrategy m = Some s \<and> resolve (m_resolver m) c s = Inl e)"
  proof -
    let ?w1 = "if onConflictDetected m then fire (ConflictDetected c) (snd ?r) else snd ?r"
    from a have "auto_strategy m = None
        \<or> (\<exists>s e. auto_strategy m = Some s \<and> resolve (m_resolver m) c s = Inl e)"
      by (auto simp: auto_strategy_def split: option.splits)
    with d have "checkAndHandle m localData remoteData w = enqueue_and_report c m ?w1"
      by (auto simp: checkAndHandle_def detected_def local_of_def remote_of_def Let_def)
    with enqueue_and_report_result [of c m ?w1] show ?thesis
      by simp
  qed
  from none queued show ?thesis by blast
qed


theorem checkAndHandle_outcomes_witness:
  "checkAndHandle (new_ConflictManager ex_options) ex_data_A ex_data_A ex_world_frozen
     = (\<lparr>hasConflict = False, resolved = Some (lit ''A''), conflict = None\<rparr>,
        new_ConflictManager ex_options, ex_world_frozen)
   \<and> fst (checkAndHandle (new_ConflictManager ex_options) ex_data_A ex_data_B ex_world_frozen)
     = \<lparr>hasConflict = True, resolved = None,
        conflict = Some (mk_conflict concurrent_edit ex_side_A ex_side_B)\<rparr>
   \<and> (\<exists>item. item_conflict item = mk_conflict concurrent_edit ex_side_A ex_side_B
        \<and> conflictQueue (m_resolver (fst (snd (checkAndHandle (new_ConflictManager ex_options)
              ex_data_A ex_data_B ex_world_frozen)))) = [item])
   \<and> fst (checkAndHandle
        (setAutoResolveStrategy (Some (lit ''bogus'')) (new_ConflictManager ex_options))
        ex_data_A ex_data_B ex_world_frozen)
     = \<lparr>hasConflict = True, resolved = None,
        conflict = Some (mk_conflict concurrent_edit ex_side_A ex_side_B)\<rparr>"
proof -
  let ?m = "new_ConflictManager ex_options"
  let ?c = "mk_conflict concurrent_edit ex_side_A ex_side_B"
  have s0: "autoResolveStrategy ?m = None"
    by (simp add: new_ConflictManager_def ex_options_def)
  have q0: "conflictQueue (m_resolver ?m) = []"
    by (simp add: new_ConflictManager_def new_ConflictResolver_def)
  have bogus: "resolve (m_resolver (setAutoResolveStrategy (Some (lit ''bogus'')) ?m)) ?c
      (lit ''bogus'') = Inl (UnknownStrategy (lit ''bogus''))"
    by (simp add: resolve_def autoResolve_def lit_def)
  have s1: "autoResolveStrategy (setAutoResolveStrategy (Some (lit ''bogus'')) ?m)
      = Some (lit ''bogus'')"
    by (simp add: setAutoResolveStrategy_def)
  from checkAndHandle_outcomes [where m = ?m and localData = ex_data_A
      and remoteData = ex_data_A and w = ex_world_frozen]
  have a: "checkAndHandle ?m ex_data_A ex_data_A ex_world_frozen
     = (\<lparr>hasConflict = False, resolved = Some (lit ''A''), conflict = None\<rparr>,
        ?m, ex_world_frozen)"
    by (simp add: ex_detected ex_sides) (simp add: ex_data_A_def)
  from checkAndHandle_outcomes [where m = ?m and localData = ex_data_A
      and remoteData = ex_data_B and w = ex_world_frozen and c = ?c] s0 q0
  have b: "fst (checkAndHandle ?m ex_data_A ex_data_B ex_world_frozen)
     = \<lparr>hasConflict = True, resolved = None, conflict = Some ?c\<rparr>
   \<and> (\<exists>item. item_conflict item = ?c
        \<and> conflictQueue (m_resolver (fst (snd (checkAndHandle ?m
              ex_data_A ex_data_B ex_world_frozen)))) = [item])"
    by (simp add: ex_detected)
  from checkAndHandle_outcomes [where m = "setAutoResolveStrategy (Some (lit ''bogus'')) ?m"
      and localData = ex_data_A and remoteData = ex_data_B and w = ex_world_frozen
      and c = ?c] s1 bogus
  have c: "fst (checkAndHandle (setAutoResolveStrategy (Some (lit ''bogus'')) ?m)
        ex_data_A ex_data_B ex_world_frozen)
     = \<lparr>hasConflict = True, resolved = None, conflict = Some ?c\<rparr>"
    by (simp add: ex_detected)
  from a b c show ?thesis by blast
qed

lemma find_present:
  "cid \<in> set (map item_id q) \<Longrightarrow> \<exists>item. find (\<lambda>item. item_id item = cid) q = Some item"
  by (induction q) auto


text \<open>
  C10. The manager's \<open>resolveManually(conflictId, content)\<close> on a queued id with an
  absent or empty content fails with the resolver's error and leaves manager and hook
  log unchanged; so does every failing call. With a non-empty content it returns the
  content, removes the id from the queue and, where the hook is registered, calls
  \<open>onConflictResolved\<close> once with the conflict found and the content.
\<close>

theorem manager_resolveManually_atomic:
  "(cid \<in> set (map item_id (conflictQueue (m_resolver m)))
      \<and> (resolvedContent = None \<or> resolvedContent = Some []) \<longrightarrow>
        manager_resolveManually m cid resolvedContent w = (Inl ContentRequired, m, w))
   \<and> (cid \<notin> set (map item_id (conflictQueue (m_resolver m))) \<longrightarrow>
        manager_resolveManually m cid resolvedContent w = (Inl (ConflictNotFound cid), m, w))
   \<and> (find (\<lambda>item. item_id item = cid) (conflictQueue (m_resolver m)) = Some item
      \<and> resolvedContent = Some s \<and> s \<noteq> [] \<longrightarrow>
        manager_resolveManually m cid resolvedContent w
          = (Inr s, m\<lparr>m_resolver := removeConflict cid (m_resolver m)\<rparr>,
             if onConflictResolved m
             then fire (ConflictResolved (Some (item_conflict item)) s) w else w)
        \<and> cid \<notin> set (map item_id (conflictQueue (removeConflict cid (m_resolver m)))))
   \<and> (\<forall>e. fst (manager_resolveManually m cid resolvedContent w) = Inl e \<longrightarrow>
        snd (manager_resolveManually m cid resolvedContent w) = (m, w))"
proof -
  let ?q = "conflictQueue (m_resolver m)"
  have empty: "manager_resolveManually m cid resolvedContent w = (Inl ContentRequired, m, w)"
    if "cid \<in> set (map item_id ?q)" "resolvedContent = None \<or> resolvedContent = Some []"
  proof -
    from find_present [OF that(1)] obtain item
      where "find (\<lambda>item. item_id item = cid) ?q = Some item" ..
    with that(2) show ?thesis
      by (auto simp: manager_resolveManually_def resolver_resolveManually_def)
  qed
  have absent: "manager_resolveManually m cid resolvedContent w
      = (Inl (ConflictNotFound cid), m, w)"
    if "cid \<notin> set (map item_id ?q)"
  proof -
    from that have "find (\<lambda>item. item_id item = cid) ?q = None"
      by (auto simp: find_None_iff)
    then show ?thesis
      by (simp add: manager_resolveManually_def)
  qed
  have good: "manager_resolveManually m cid resolvedContent w
          = (Inr s, m\<lparr>m_resolver := removeConflict cid (m_resolver m)\<rparr>,
             if onConflictResolved m
             then fire (ConflictResolved (Some (item_conflict item)) s) w else w)
        \<and> cid \<notin> set (map item_id (conflictQueue (removeConflict cid (m_resolver m))))"
    if "find (\<lambda>item. item_id item = cid) ?q = Some item" "resolvedContent = Some s" "s \<noteq> []"
    using that
    by (auto simp: manager_resolveManually_def resolver_resolveManually_def removeConflict_def)
  have atomic: "snd (manager_resolveManually m cid resolvedContent w) = (m, w)"
    if "fst (manager_resolveManually m cid resolvedContent w) = Inl e" for e
    using that
    by (auto simp: manager_resolveManually_def split: option.splits sum.splits)
  from empty absent good atomic show ?thesis by blast
qed


theorem manager_resolveManually_atomic_witness:
  "manager_resolveManually ex_manager (lit ''conflict_2_b'') None ex_world_frozen
     = (Inl ContentRequired, ex_manager, ex_world_frozen)
   \<and> manager_resolveManually ex_manager (lit ''conflict_2_b'') (Some []) ex_world_frozen
     = (Inl ContentRequired, ex_manager, ex_world_frozen)
   \<and> manager_resolveManually ex_manager (lit ''conflict_2_b'') (Some (lit ''User merged content''))
        ex_world_frozen
     = (Inr (lit ''User merged content''),
        ex_manager\<lparr>m_resolver := ex_resolver\<lparr>conflictQueue :=
           [\<lparr>item_conflict = ex_bad_conflict, item_timestamp = 1,
              item_id = lit ''conflict_1_a''\<rparr>]\<rparr>\<rparr>,
        ex_world_frozen\<lparr>fired :=
           [ConflictResolved (Some ex_conflict_AB) (lit ''User merged content'')]\<rparr>)"
  using manager_resolveManually_atomic [where m = ex_manager and cid = "lit ''conflict_2_b''"
      and resolvedContent = None and w = ex_world_frozen]
    manager_resolveManually_atomic [where m = ex_manager and cid = "lit ''conflict_2_b''"
      and resolvedContent = "Some []" and w = ex_world_frozen]
    manager_resolveManually_atomic [where m = ex_manager and cid = "lit ''conflict_2_b''"
      and resolvedContent = "Some (lit ''User merged content'')" and w = ex_world_frozen
      and s = "lit ''User merged content''"
      and item = "\<lparr>item_conflict = ex_conflict_AB, item_timestamp = 2,
             item_id = lit ''conflict_2_b''\<rparr>"]
  by (simp add: ex_manager_def ex_resolver_def new_ConflictManager_def ex_options_def
      removeConflict_def fire_def ex_world_frozen_def lit_def)
subsection \<open>Storage\<close>

lemma excess_bits_small: "m < 2 ^ 53 \<Longrightarrow> excess_bits m = 0"
  by (subst excess_bits.simps) simp

lemma excess_bits_2_53: "excess_bits (2 ^ 53) = 1"
proof -
  have "excess_bits (2 ^ 53) = Suc (excess_bits (2 ^ 52))"
    by (subst excess_bits.simps) simp
  also have "excess_bits (2 ^ 52) = 0"
    by (rule excess_bits_small) simp
  finally show ?thesis by simp
qed

lemma round_nat_exact: "m \<le> 2 ^ 53 \<Longrightarrow> round_nat m = m"
proof (cases "m < 2 ^ 53")
  case True
  then show ?thesis
    by (simp add: round_nat_def excess_bits_small)
next
  case False
  moreover assume "m \<le> 2 ^ 53"
  ultimately have m: "m = 2 ^ 53" by simp
  with excess_bits_2_53 have e: "excess_bits m = 1" by simp
  show ?thesis
    unfolding round_nat_def e by (simp add: m)
qed

lemma round_double_exact:
  "- (2 ^ 53) \<le> i \<Longrightarrow> i \<le> 2 ^ 53 \<Longrightarrow> round_double i = i"
proof -
  assume lo: "- (2 ^ 53) \<le> i" and hi: "i \<le> 2 ^ 53"
  show ?thesis
  proof (cases "i < 0")
    case True
    with lo have "nat (- i) \<le> 2 ^ 53" by simp
    then have "round_nat (nat (- i)) = nat (- i)" by (rule round_nat_exact)
    with True show ?thesis by (simp add: round_double_def)
  next
    case False
    with hi have "nat i \<le> 2 ^ 53" by simp
    then have "round_nat (nat i) = nat i" by (rule round_nat_exact)
    with False show ?thesis by (simp add: round_double_def)
  qed
qed

lemma round_double_2_53_plus_1: "round_double (9007199254740992 + 1) = 9007199254740992"
proof -
  have "excess_bits 9007199254740993 = Suc (excess_bits 4503599627370496)"
    by (subst excess_bits.simps) simp
  also have "excess_bits 4503599627370496 = 0"
    by (rule excess_bits_small) simp
  finally have "excess_bits 9007199254740993 = 1" by simp
  then show ?thesis
    by (simp add: round_double_def round_nat_def)
qed

text \<open>
  C8. On an initialised store, \<open>saveNote(notebookId, note)\<close> with a non-empty note id,
  a non-empty \<open>notebookId\<close> and a version that is absent or an integer from \<open>- 2 ^ 53\<close>
  up to but not including \<open>2 ^ 53\<close> succeeds, reads the clock once, and the note then
  read back under that id and notebook has the version of the passed note plus one
  (1 when the passed note has no version), \<open>updatedAt\<close> equal to the clock reading of
  the save, the \<open>notebookId\<close> that was passed, and the id, title and content of the
  passed note. At version \<open>2 ^ 53\<close> the sum rounds back and the stored version is the
  passed one; an empty \<open>notebookId\<close> and a store that is not initialised make the call
  fail.
\<close>

theorem saveNote_version:
  assumes "note_id n = Some i" and "i \<noteq> []" and "nb \<noteq> []"
    and "isInitialized s" and "db s = Some notes"
    and "case note_version n of None \<Rightarrow> True | Some v \<Rightarrow> - (2 ^ 53) \<le> v \<and> v < 2 ^ 53"
  shows "fst (saveNote (Some nb) n (s, w)) = Inr ()
    \<and> snd (snd (saveNote (Some nb) n (s, w))) = w\<lparr>ticks := Suc (ticks w)\<rparr>
    \<and> (\<exists>stored.
          getNote (Some nb) i (fst (snd (saveNote (Some nb) n (s, w)))) = Inr (Some stored)
          \<and> note_version stored
              = Some ((case note_version n of None \<Rightarrow> 0 | Some v \<Rightarrow> v) + 1)
          \<and> note_updatedAt stored = Some (clock w (ticks w))
          \<and> note_notebookId stored = Some nb
          \<and> note_id stored = Some i
          \<and> note_title stored = note_title n
          \<and> note_content stored = note_content n)"
proof -
  let ?now = "clock w (ticks w)"
  let ?stored = "noteData (Some nb) n ?now"
  let ?v = "case note_version n of None \<Rightarrow> 0 | Some v \<Rightarrow> v"
  have run: "saveNote (Some nb) n (s, w)
      = (Inr (), s\<lparr>db := Some (notes(i \<mapsto> ?stored))\<rparr>, w\<lparr>ticks := Suc (ticks w)\<rparr>)"
    using assms(1-5) by (simp add: saveNote_def truthy_def Date_now_def Let_def)
  have v: "num_or (note_version n) 0 = ?v"
    by (simp add: num_or_def split: option.splits)
  from assms(6) have "- (2 ^ 53) \<le> ?v + 1" and "?v + 1 \<le> 2 ^ 53"
    by (simp_all split: option.splits)
  then have sum: "js_add ?v 1 = ?v + 1"
    unfolding js_add_def by (rule round_double_exact)
  have get: "getNote (Some nb) i (s\<lparr>db := Some (notes(i \<mapsto> ?stored))\<rparr>) = Inr (Some ?stored)"
    using assms(4) by (simp add: getNote_def noteData_def)
  have fields: "note_version ?stored = Some (?v + 1)
      \<and> note_updatedAt ?stored = Some ?now
      \<and> note_notebookId ?stored = Some nb
      \<and> note_id ?stored = Some i
      \<and> note_title ?stored = note_title n
      \<and> note_content ?stored = note_content n"
    using assms(1) v sum by (simp add: noteData_def)
  from run get fields show ?thesis
    by simp
qed

theorem saveNote_version_witness:
  "fst (saveNote (Some (lit ''nb-1'')) ex_note (ex_storage, ex_world_frozen)) = Inr ()
   \<and> (\<exists>stored.
         getNote (Some (lit ''nb-1'')) (lit ''note-1'')
           (fst (snd (saveNote (Some (lit ''nb-1'')) ex_note (ex_storage, ex_world_frozen))))
           = Inr (Some stored)
         \<and> note_version stored = Some 4
         \<and> note_updatedAt stored = Some 1000
         \<and> note_notebookId stored = Some (lit ''nb-1''))
   \<and> (\<exists>stored.
         getNote (Some (lit ''nb-1'')) (lit ''note-1'')
           (fst (snd (saveNote (Some (lit ''nb-1'')) (ex_note\<lparr>note_version := None\<rparr>)
              (ex_storage, ex_world_frozen))))
           = Inr (Some stored)
         \<and> note_version stored = Some 1)"
proof -
  have ne: "lit ''note-1'' \<noteq> []" "lit ''nb-1'' \<noteq> []"
    by (simp_all add: lit_def)
  have i: "note_id ex_note = Some (lit ''note-1'')"
    "note_id (ex_note\<lparr>note_version := None\<rparr>) = Some (lit ''note-1'')"
    by (simp_all add: ex_note_def)
  have s: "isInitialized ex_storage" "db ex_storage = Some Map.empty"
    by (simp_all add: ex_storage_def)
  have v: "case note_version ex_note of None \<Rightarrow> True
      | Some v \<Rightarrow> - (2 ^ 53) \<le> v \<and> v < 2 ^ 53"
    "case note_version (ex_note\<lparr>note_version := None\<rparr>) of None \<Rightarrow> True
      | Some v \<Rightarrow> - (2 ^ 53) \<le> v \<and> v < 2 ^ 53"
    by (simp_all add: ex_note_def)
  from saveNote_version [OF i(1) ne s v(1), of ex_world_frozen]
    saveNote_version [OF i(2) ne s v(2), of ex_world_frozen]
  show ?thesis
    by (simp add: ex_note_def ex_world_frozen_def) blast
qed

theorem saveNote_counterexample:
  "(case getNote (Some (lit ''nb-1'')) (lit ''note-1'')
           (fst (snd (saveNote (Some (lit ''nb-1''))
              (ex_note\<lparr>note_version := Some 9007199254740992\<rparr>)
              (ex_storage, ex_world_frozen)))) of
      Inr (Some stored) \<Rightarrow> note_version stored
    | _ \<Rightarrow> None) = Some 9007199254740992
   \<and> saveNote (Some []) ex_note (ex_storage, ex_world_frozen)
       = (Inl InvalidNoteData, ex_storage, ex_world_frozen)
   \<and> fst (saveNote (Some (lit ''nb-1'')) ex_note
        (ex_storage\<lparr>isInitialized := False\<rparr>, ex_world_frozen)) = Inl NotInitialized"
proof -
  have ne: "lit ''note-1'' \<noteq> []" "lit ''nb-1'' \<noteq> []"
    by (simp_all add: lit_def)
  have big: "js_add 9007199254740992 1 = 9007199254740992"
    unfolding js_add_def by (rule round_double_2_53_plus_1)
  have "(case getNote (Some (lit ''nb-1'')) (lit ''note-1'')
           (fst (snd (saveNote (Some (lit ''nb-1''))
              (ex_note\<lparr>note_version := Some 9007199254740992\<rparr>)
              (ex_storage, ex_world_frozen)))) of
      Inr (Some stored) \<Rightarrow> note_version stored
    | _ \<Rightarrow> None) = Some 9007199254740992"
    using ne big
    by (simp add: saveNote_def getNote_def noteData_def truthy_def Date_now_def Let_def
        ex_note_def ex_storage_def num_or_def)
  moreover have "saveNote (Some []) ex_note (ex_storage, ex_world_frozen)
       = (Inl InvalidNoteData, ex_storage, ex_world_frozen)"
    by (simp add: saveNote_def truthy_def)
  moreover have "fst (saveNote (Some (lit ''nb-1'')) ex_note
        (ex_storage\<lparr>isInitialized := False\<rparr>, ex_world_frozen)) = Inl NotInitialized"
    using ne
    by (simp add: saveNote_def truthy_def Date_now_def Let_def ex_note_def ex_storage_def)
  ultimately show ?thesis by blast
qed

end
